(* ===== verification/Prelude.thy ===== *)
theory Prelude
  imports Main "HOL-Library.Word"
begin

text \<open>
  Shared vocabulary of the development: the error type of the C++ code (a failed
  \<^verbatim>\<open>assert\<close> or a thrown \<^verbatim>\<open>uint_error\<close> is a value), the machine-integer type names,
  the collections of simplification rules the component theories extend, and the facts
  on \<^verbatim>\<open>div\<close>, \<^verbatim>\<open>mod\<close>, lists and words that several components use.
\<close>

section \<open>Errors and machine integers\<close>

datatype cpp_error = AssertionFailed | UintError string | RuntimeError string | NullPointer | DivideByZero

type_synonym 'a res = "cpp_error + 'a"
type_synonym u8 = "8 word"
type_synonym u32 = "32 word"
type_synonym u64 = "64 word"

fun is_ok :: "'e + 'a \<Rightarrow> bool" where
  "is_ok (Inl _) = False"
| "is_ok (Inr _) = True"

fun rbind :: "'e + 'a \<Rightarrow> ('a \<Rightarrow> 'e + 'b) \<Rightarrow> 'e + 'b" where
  "rbind (Inl e) f = Inl e"
| "rbind (Inr x) f = f x"

definition deref :: "('p \<rightharpoonup> 'a) \<Rightarrow> 'p option \<Rightarrow> 'a res" where
  "deref st p = (case p of None \<Rightarrow> Inl NullPointer
     | Some a \<Rightarrow> (case st a of None \<Rightarrow> Inl NullPointer | Some b \<Rightarrow> Inr b))"

text \<open>C++ integer division truncates towards zero.\<close>

definition cdiv :: "int \<Rightarrow> int \<Rightarrow> int" where
  "cdiv a b = sgn a * sgn b * (\<bar>a\<bar> div \<bar>b\<bar>)"

definition cmod :: "int \<Rightarrow> int \<Rightarrow> int" where
  "cmod a b = a - cdiv a b * b"

lemma rbind_Inr_iff: "rbind m f = Inr y \<longleftrightarrow> (\<exists>x. m = Inr x \<and> f x = Inr y)"
  by (cases m) auto

lemma rbind_Inl_iff: "rbind m f = Inl e \<longleftrightarrow> m = Inl e \<or> (\<exists>x. m = Inr x \<and> f x = Inl e)"
  by (cases m) auto

lemma deref_Some [simp]: "st a = Some b \<Longrightarrow> deref st (Some a) = Inr b"
  by (simp add: deref_def)

lemma cdiv_nonneg: "0 \<le> a \<Longrightarrow> 0 < b \<Longrightarrow> cdiv a b = a div b"
  by (cases "a = 0") (simp_all add: cdiv_def)

lemma cmod_nonneg: "0 \<le> a \<Longrightarrow> 0 < b \<Longrightarrow> cmod a b = a mod b"
  by (simp add: cmod_def cdiv_nonneg minus_div_mult_eq_mod)

section \<open>Collections\<close>

named_theorems limb_val \<open>how the value of a limb array changes under the limb operations\<close>

section \<open>Quotients, remainders and bits\<close>

lemma div_mod_unique:
  fixes x b q r :: nat
  assumes "x = b * q + r" "r < b"
  shows "x div b = q \<and> x mod b = r"
  using assms by simp

lemma div_mod_combine:
  fixes n v b m :: nat
  assumes "0 < b"
  shows "n mod b + b * ((v + n div b) mod m) = (n + b * v) mod (b * m)"
proof -
  have "(n + b * v) mod (b * m) = b * ((n + b * v) div b mod m) + (n + b * v) mod b"
    by (rule mod_mult2_eq)
  moreover have "(n + b * v) div b = v + n div b" using assms by simp
  ultimately show ?thesis by simp
qed

lemma bit_add_shifted:
  fixes a b :: nat
  assumes "a < 2 ^ k"
  shows "bit (a + 2 ^ k * b) n \<longleftrightarrow> (if n < k then bit a n else bit b (n - k))"
proof (cases "n < k")
  case True
  have "2 ^ k * b = 2 ^ n * (2 * (2 ^ (k - n - 1) * b))"
  proof -
    have "(2 :: nat) ^ k = 2 ^ (n + 1 + (k - n - 1))" using True by simp
    then show ?thesis by (simp only: power_add) simp
  qed
  then have "(a + 2 ^ k * b) div 2 ^ n = 2 * (2 ^ (k - n - 1) * b) + a div 2 ^ n"
    by (simp only: div_mult_self2 power_not_zero zero_neq_numeral [symmetric] not_False_eq_True)
  then show ?thesis using True by (simp add: bit_iff_odd)
next
  case False
  then have "(2 :: nat) ^ n = 2 ^ k * 2 ^ (n - k)" by (simp flip: power_add)
  then have "(a + 2 ^ k * b) div 2 ^ n = b div 2 ^ (n - k)"
    using assms by (simp add: div_mult2_eq)
  then show ?thesis using False by (simp add: bit_iff_odd)
qed

lemma nat_bit_bounds:
  fixes v :: nat
  shows "bit v n \<Longrightarrow> 2 ^ n \<le> v" and "v < 2 ^ Suc n \<Longrightarrow> \<not> bit v n \<Longrightarrow> v < 2 ^ n"
proof -
  show "bit v n \<Longrightarrow> 2 ^ n \<le> v"
    using div_less [of v "2 ^ n"] by (cases "v < 2 ^ n") (auto simp: bit_iff_odd)
  assume "v < 2 ^ Suc n" "\<not> bit v n"
  then have "v div 2 ^ n < 2" "even (v div 2 ^ n)"
    by (simp_all add: bit_iff_odd div_less_iff_less_mult)
  then have "v div 2 ^ n = 0" by (auto elim: evenE)
  then show "v < 2 ^ n" by (simp add: div_eq_0_iff)
qed

lemma u32_less: "unat (x :: u32) < 2 ^ 32"
  using unsigned_less [of x, where ?'a = nat] by simp

lemma u32_minus_one: "(- 1 :: u32) = 0xFFFFFFFF"
  by simp

lemma unat_u32_minus_one: "unat (- 1 :: u32) = 2 ^ 32 - 1"
  by (simp only: u32_minus_one) simp

lemma bit_unat_u32: "bit (unat (x :: u32)) n \<longleftrightarrow> bit x n"
  by (simp add: bit_unsigned_iff)

lemma unat_ucast_u64: "unat (ucast (x :: u32) :: u64) = unat x"
  by (simp add: unsigned_ucast_eq take_bit_nat_eq_self_iff order_less_le_trans [OF u32_less])

lemma unat_ucast_u32: "unat (ucast (b :: u64) :: u32) = unat b mod 2 ^ 32"
  by (simp add: unsigned_ucast_eq take_bit_eq_mod)


end
