(* ===== verification/Arith_Uint256.thy ===== *)
theory Arith_Uint256
  imports Prelude
begin

unbundle bit_operations_syntax

text \<open>
  The 256-bit integers of \<^verbatim>\<open>src/core/src/arith_uint256.h\<close> and \<^verbatim>\<open>arith_uint256.cpp\<close>: an
  array of eight 32-bit limbs, least significant first, with the limb loops of the source
  (64-bit intermediates, carries, shifts across limbs, schoolbook multiplication, bitwise
  long division). \<open>limbs_val\<close> reads a limb array as a natural number; the lemmas show
  that every loop computes the arithmetic operation modulo \<open>2 ^ 256\<close>. The locale
  \<open>uint_arith\<close> is the interface the target arithmetic of the proof-of-work rules relies on.
\<close>

section \<open>The representation and its operations\<close>

type_synonym base_uint = "u32 list"

definition WIDTH :: nat where
  "WIDTH = 8"

definition uint_zero :: base_uint where
  "uint_zero = replicate WIDTH 0"

definition uint_of_u64 :: "u64 \<Rightarrow> base_uint" where
  "uint_of_u64 b = [ucast b, ucast (drop_bit 32 b)] @ replicate (WIDTH - 2) 0"

definition uint_not :: "base_uint \<Rightarrow> base_uint" where
  "uint_not pn = map NOT pn"

text \<open>The prefix increment stops at the first limb that does not wrap to zero.\<close>

fun uint_incr :: "base_uint \<Rightarrow> base_uint" where
  "uint_incr [] = []"
| "uint_incr (x # xs) = (if x + 1 = 0 then (x + 1) # uint_incr xs else (x + 1) # xs)"

fun uint_decr :: "base_uint \<Rightarrow> base_uint" where
  "uint_decr [] = []"
| "uint_decr (x # xs) = (if x - 1 = 0xFFFFFFFF then (x - 1) # uint_decr xs else (x - 1) # xs)"

definition uint_neg :: "base_uint \<Rightarrow> base_uint" where
  "uint_neg pn = uint_incr (uint_not pn)"

text \<open>The low and high half of a 64-bit intermediate: \<^verbatim>\<open>n & 0xffffffff\<close> and \<^verbatim>\<open>n >> 32\<close>.\<close>

definition lo32 :: "u64 \<Rightarrow> u32" where
  "lo32 n = ucast (n AND 0xFFFFFFFF)"

definition hi32 :: "u64 \<Rightarrow> u64" where
  "hi32 n = drop_bit 32 n"

fun add_loop :: "u64 \<Rightarrow> base_uint \<Rightarrow> base_uint \<Rightarrow> base_uint" where
  "add_loop carry (x # xs) (y # ys) =
     (let n = carry + ucast x + ucast y in lo32 n # add_loop (hi32 n) xs ys)"
| "add_loop carry _ _ = []"

definition uint_add :: "base_uint \<Rightarrow> base_uint \<Rightarrow> base_uint" where
  "uint_add a b = add_loop 0 a b"

definition uint_sub :: "base_uint \<Rightarrow> base_uint \<Rightarrow> base_uint" where
  "uint_sub a b = uint_add a (uint_neg b)"

fun mul32_loop :: "u64 \<Rightarrow> base_uint \<Rightarrow> u32 \<Rightarrow> base_uint" where
  "mul32_loop carry [] b32 = []"
| "mul32_loop carry (x # xs) b32 =
     (let n = carry + ucast b32 * ucast x in lo32 n # mul32_loop (hi32 n) xs b32)"

definition uint_mul32 :: "base_uint \<Rightarrow> u32 \<Rightarrow> base_uint" where
  "uint_mul32 pn b32 = mul32_loop 0 pn b32"

text \<open>
  The inner loop of the product runs over the limbs \<^verbatim>\<open>a.pn[i + j]\<close> for \<^verbatim>\<open>i + j < WIDTH\<close>:
  the accumulator from position \<open>j\<close> on, in step with the limbs of \<open>b\<close>.
\<close>

fun mul_inner :: "u64 \<Rightarrow> base_uint \<Rightarrow> u32 \<Rightarrow> base_uint \<Rightarrow> base_uint" where
  "mul_inner carry (a # as) x (b # bs) =
     (let n = carry + ucast a + ucast x * ucast b in lo32 n # mul_inner (hi32 n) as x bs)"
| "mul_inner carry _ x _ = []"

fun mul_outer :: "nat \<Rightarrow> base_uint \<Rightarrow> base_uint \<Rightarrow> base_uint \<Rightarrow> base_uint" where
  "mul_outer j a [] b = a"
| "mul_outer j a (x # xs) b = mul_outer (Suc j) (take j a @ mul_inner 0 (drop j a) x b) xs b"

definition uint_mul :: "base_uint \<Rightarrow> base_uint \<Rightarrow> base_uint" where
  "uint_mul pn b = mul_outer 0 uint_zero pn b"

definition or_at :: "base_uint \<Rightarrow> nat \<Rightarrow> u32 \<Rightarrow> base_uint" where
  "or_at pn i w = pn[i := (pn ! i) OR w]"

text \<open>The two shifts, with the whole-limb distance \<open>k\<close> and the remaining bit distance.\<close>

definition shl_step :: "base_uint \<Rightarrow> nat \<Rightarrow> nat \<Rightarrow> base_uint \<Rightarrow> nat \<Rightarrow> base_uint" where
  "shl_step a k shift pn i =
     (let pn1 = (if i + k + 1 < WIDTH \<and> shift \<noteq> 0
                 then or_at pn (i + k + 1) (drop_bit (32 - shift) (a ! i)) else pn)
      in if i + k < WIDTH then or_at pn1 (i + k) (push_bit shift (a ! i)) else pn1)"

definition uint_shl :: "base_uint \<Rightarrow> nat \<Rightarrow> base_uint" where
  "uint_shl a shift = foldl (shl_step a (shift div 32) (shift mod 32)) uint_zero [0..<WIDTH]"

definition shr_step :: "base_uint \<Rightarrow> nat \<Rightarrow> nat \<Rightarrow> base_uint \<Rightarrow> nat \<Rightarrow> base_uint" where
  "shr_step a k shift pn i =
     (let pn1 = (if k + 1 \<le> i \<and> shift \<noteq> 0
                 then or_at pn (i - k - 1) (push_bit (32 - shift) (a ! i)) else pn)
      in if k \<le> i then or_at pn1 (i - k) (drop_bit shift (a ! i)) else pn1)"

definition uint_shr :: "base_uint \<Rightarrow> nat \<Rightarrow> base_uint" where
  "uint_shr a shift = foldl (shr_step a (shift div 32) (shift mod 32)) uint_zero [0..<WIDTH]"

text \<open>Comparison scans the limbs from the most significant one down.\<close>

fun compare_loop :: "base_uint \<Rightarrow> base_uint \<Rightarrow> int" where
  "compare_loop (x # xs) (y # ys) =
     (if x < y then -1 else if y < x then 1 else compare_loop xs ys)"
| "compare_loop _ _ = 0"

definition CompareTo :: "base_uint \<Rightarrow> base_uint \<Rightarrow> int" where
  "CompareTo a b = compare_loop (rev a) (rev b)"

definition EqualTo :: "base_uint \<Rightarrow> u64 \<Rightarrow> bool" where
  "EqualTo pn b =
     (if \<exists>i \<in> set [2..<WIDTH]. pn ! i \<noteq> 0 then False
      else if ucast (pn ! 1) \<noteq> drop_bit 32 b then False
      else if ucast (pn ! 0) \<noteq> b AND 0xFFFFFFFF then False
      else True)"

text \<open>The position of the highest set bit plus one.\<close>

fun bit_scan :: "u32 \<Rightarrow> nat \<Rightarrow> nat" where
  "bit_scan w 0 = 0"
| "bit_scan w (Suc nbits) = (if w AND push_bit (Suc nbits) 1 \<noteq> 0 then Suc nbits else bit_scan w nbits)"

fun bits_loop :: "base_uint \<Rightarrow> nat \<Rightarrow> nat" where
  "bits_loop pn 0 = 0"
| "bits_loop pn (Suc pos) =
     (if pn ! pos \<noteq> 0 then 32 * pos + bit_scan (pn ! pos) 31 + 1 else bits_loop pn pos)"

definition uint_bits :: "base_uint \<Rightarrow> nat" where
  "uint_bits pn = bits_loop pn WIDTH"

definition GetLow64 :: "base_uint \<Rightarrow> u64" where
  "GetLow64 pn = ucast (pn ! 0) OR push_bit 32 (ucast (pn ! 1))"

text \<open>
  Long division. \<open>n\<close> counts the remaining iterations: the loop variable \<^verbatim>\<open>shift\<close> of
  the source is \<open>n - 1\<close>, and the loop ends when it would become negative.
\<close>

fun div_loop :: "nat \<Rightarrow> base_uint \<Rightarrow> base_uint \<Rightarrow> base_uint \<Rightarrow> base_uint \<times> base_uint" where
  "div_loop 0 num dv quot = (quot, num)"
| "div_loop (Suc shift) num dv quot =
     (if CompareTo num dv \<ge> 0
      then div_loop shift (uint_sub num dv) (uint_shr dv 1)
             (or_at quot (shift div 32) (push_bit (shift mod 32) 1))
      else div_loop shift num (uint_shr dv 1) quot)"

definition uint_div :: "base_uint \<Rightarrow> base_uint \<Rightarrow> base_uint res" where
  "uint_div a b =
     (let num_bits = uint_bits a; div_bits = uint_bits b in
      if div_bits = 0 then Inl (UintError ''Division by zero'')
      else if div_bits > num_bits then Inr uint_zero
      else Inr (fst (div_loop (num_bits - div_bits + 1) a (uint_shl b (num_bits - div_bits)) uint_zero)))"

text \<open>Conversion between the byte array of \<^verbatim>\<open>uint256\<close> and the limb array.\<close>

definition ReadLE32 :: "u8 list \<Rightarrow> u32" where
  "ReadLE32 p = ucast (p ! 0) OR push_bit 8 (ucast (p ! 1)) OR
                push_bit 16 (ucast (p ! 2)) OR push_bit 24 (ucast (p ! 3))"

definition WriteLE32 :: "u32 \<Rightarrow> u8 list" where
  "WriteLE32 x = [ucast x, ucast (drop_bit 8 x), ucast (drop_bit 16 x), ucast (drop_bit 24 x)]"

definition UintToArith256 :: "u8 list \<Rightarrow> base_uint" where
  "UintToArith256 a = map (\<lambda>x. ReadLE32 (drop (x * 4) a)) [0..<WIDTH]"

definition ArithToUint256 :: "base_uint \<Rightarrow> u8 list" where
  "ArithToUint256 a = concat (map WriteLE32 a)"


section \<open>Values\<close>

text \<open>A limb array is well formed when it has \<^verbatim>\<open>WIDTH\<close> limbs; \<open>limbs_val\<close> reads it.\<close>

definition wf_uint :: "base_uint \<Rightarrow> bool" where
  "wf_uint pn \<longleftrightarrow> length pn = WIDTH"

fun limbs_val :: "base_uint \<Rightarrow> nat" where
  "limbs_val [] = 0"
| "limbs_val (x # xs) = unat x + 2 ^ 32 * limbs_val xs"

lemma limbs_val_bound: "limbs_val xs < 2 ^ (32 * length xs)"
proof (induction xs)
  case (Cons x xs)
  have "unat x < 2 ^ 32" by (rule u32_less)
  moreover have "limbs_val xs + 1 \<le> 2 ^ (32 * length xs)" using Cons by simp
  then have "2 ^ 32 * (limbs_val xs + 1) \<le> (2 ^ 32 * 2 ^ (32 * length xs) :: nat)"
    by (rule mult_le_mono2)
  ultimately show ?case by (simp add: power_add)
qed simp

lemma unat_lo32: "unat (lo32 n) = unat n mod 2 ^ 32"
proof -
  have "n AND 0xFFFFFFFF = take_bit 32 n"
    by (simp add: take_bit_eq_mask mask_eq_exp_minus_1)
  then have "lo32 n = ucast n" unfolding lo32_def
    by (intro bit_word_eqI) (simp add: bit_simps)
  then show ?thesis by (simp add: unsigned_ucast_eq take_bit_eq_mod)
qed
lemma unat_hi32: "unat (hi32 n) = unat n div 2 ^ 32"
  by (simp add: hi32_def unat_drop_bit_eq drop_bit_eq_div unat_div)

lemma add_loop_val:
  assumes "unat carry \<le> 1" "length xs = length ys"
  shows "limbs_val (add_loop carry xs ys) = (limbs_val xs + limbs_val ys + unat carry) mod 2 ^ (32 * length xs)"
  using assms
proof (induction carry xs ys rule: add_loop.induct)
  case (1 carry x xs y ys)
  define n where "n = carry + ucast x + ucast y"
  have n: "unat n = unat carry + unat x + unat y"
  proof -
    have "unat carry + unat x + unat y < 2 ^ 64"
      using "1.prems"(1) u32_less [of x] u32_less [of y] by simp
    then show ?thesis by (simp add: n_def unat_word_ariths unat_ucast_u64 mod_add_left_eq)
  qed
  have "unat (hi32 n) \<le> 1"
    using "1.prems"(1) u32_less [of x] u32_less [of y] by (simp add: unat_hi32 n)
  with "1.IH" [OF n_def] "1.prems" have
    "limbs_val (add_loop (hi32 n) xs ys) =
      (limbs_val xs + limbs_val ys + unat n div 2 ^ 32) mod 2 ^ (32 * length xs)"
    by (simp add: unat_hi32)
  then have "limbs_val (add_loop carry (x # xs) (y # ys)) =
     unat n mod 2 ^ 32 + 2 ^ 32 * ((limbs_val xs + limbs_val ys + unat n div 2 ^ 32) mod 2 ^ (32 * length xs))"
    by (simp add: Let_def n_def [symmetric] unat_lo32)
  also have "\<dots> = (unat n + 2 ^ 32 * (limbs_val xs + limbs_val ys)) mod (2 ^ 32 * 2 ^ (32 * length xs))"
    by (rule div_mod_combine) simp
  finally show ?case by (simp add: n power_add algebra_simps)
qed auto

lemma length_add_loop: "length (add_loop c xs ys) = min (length xs) (length ys)"
  by (induction c xs ys rule: add_loop.induct) (simp_all add: Let_def)

lemma length_uint_incr: "length (uint_incr xs) = length xs"
  by (induction xs rule: uint_incr.induct) simp_all

lemma length_uint_decr: "length (uint_decr xs) = length xs"
  by (induction xs rule: uint_decr.induct) simp_all

lemma length_uint_neg: "length (uint_neg xs) = length xs"
  by (simp add: uint_neg_def uint_not_def length_uint_incr)

lemma length_mul32_loop: "length (mul32_loop c xs b) = length xs"
  by (induction c xs b rule: mul32_loop.induct) (simp_all add: Let_def)

lemma length_mul_inner: "length (mul_inner c as x bs) = min (length as) (length bs)"
  by (induction c as x bs rule: mul_inner.induct) (simp_all add: Let_def)

lemma length_mul_outer: "length a \<le> length b \<Longrightarrow> length (mul_outer j a xs b) = length a"
proof (induction j a xs b rule: mul_outer.induct)
  case (2 j a x xs b)
  then show ?case by (simp add: length_mul_inner)
qed simp

lemma limbs_val_append: "limbs_val (xs @ ys) = limbs_val xs + 2 ^ (32 * length xs) * limbs_val ys"
  by (induction xs) (simp_all add: power_add algebra_simps)

lemma uint_incr_val: "limbs_val (uint_incr xs) = (limbs_val xs + 1) mod 2 ^ (32 * length xs)"
proof (induction xs rule: uint_incr.induct)
  case (2 x xs)
  show ?case
  proof (cases "x + 1 = 0")
    case True
    then have x: "unat x = 2 ^ 32 - 1"
      by (metis unat_u32_minus_one add_eq_0_iff2)
    with 2 True have "limbs_val (uint_incr (x # xs)) =
        (unat x + 1) mod 2 ^ 32 + 2 ^ 32 * ((limbs_val xs + (unat x + 1) div 2 ^ 32) mod 2 ^ (32 * length xs))"
      by simp
    also have "\<dots> = (unat x + 1 + 2 ^ 32 * limbs_val xs) mod (2 ^ 32 * 2 ^ (32 * length xs))"
      by (rule div_mod_combine) simp
    finally show ?thesis by (simp add: power_add algebra_simps)
  next
    case False
    then have "unat (x + 1) = unat x + 1" by (simp add: unatSuc add.commute)
    then have "limbs_val (uint_incr (x # xs)) = limbs_val (x # xs) + 1" using False by simp
    moreover have "limbs_val (uint_incr (x # xs)) < 2 ^ (32 * length (x # xs))"
      using limbs_val_bound [of "uint_incr (x # xs)"] by (simp only: length_uint_incr)
    ultimately show ?thesis by simp
  qed
qed simp

lemma uint_decr_incr: "uint_incr (uint_decr xs) = xs"
proof (induction xs rule: uint_decr.induct)
  case (2 x xs)
  have "x - 1 = 0xFFFFFFFF \<longleftrightarrow> x = 0"
    by (metis u32_minus_one diff_add_cancel diff_0 add.left_inverse)
  with 2 show ?case by (cases "x = 0") auto
qed simp

lemma uint_not_val: "limbs_val (uint_not xs) + limbs_val xs + 1 = 2 ^ (32 * length xs)"
proof (induction xs)
  case (Cons x xs)
  have "unat (NOT x) + unat x + 1 = 2 ^ 32"
  proof -
    have "NOT x = - 1 - x" by (simp add: not_eq_complement)
    moreover have "unat (- 1 - x) = unat (- 1 :: u32) - unat x" by (rule unat_sub) simp
    moreover note unat_u32_minus_one
    ultimately show ?thesis using u32_less [of x] by simp
  qed
  with Cons show ?case by (simp add: uint_not_def power_add) 
qed (simp add: uint_not_def)

lemma uint_neg_val: "limbs_val (uint_neg xs) = (2 ^ (32 * length xs) - limbs_val xs) mod 2 ^ (32 * length xs)"
proof -
  have "length (uint_not xs) = length xs" by (simp add: uint_not_def)
  moreover have "limbs_val (uint_not xs) + 1 = 2 ^ (32 * length xs) - limbs_val xs"
    using uint_not_val [of xs] by simp
  ultimately show ?thesis unfolding uint_neg_def by (simp only: uint_incr_val)
qed

lemma uint_add_val:
  "length a = length b \<Longrightarrow> limbs_val (uint_add a b) = (limbs_val a + limbs_val b) mod 2 ^ (32 * length a)"
  by (simp add: uint_add_def add_loop_val)

lemma uint_sub_val:
  assumes "length a = length b"
  shows "limbs_val (uint_sub a b) = (limbs_val a + (2 ^ (32 * length a) - limbs_val b)) mod 2 ^ (32 * length a)"
  using assms by (simp add: uint_sub_def uint_add_val length_uint_neg uint_neg_val mod_add_right_eq)

lemma uint_sub_val_le:
  assumes "length a = length b" "limbs_val b \<le> limbs_val a"
  shows "limbs_val (uint_sub a b) = limbs_val a - limbs_val b"
proof -
  have "limbs_val a + (2 ^ (32 * length a) - limbs_val b) = (limbs_val a - limbs_val b) + 2 ^ (32 * length a)"
    using assms limbs_val_bound [of b] by simp
  moreover have "limbs_val a - limbs_val b < 2 ^ (32 * length a)"
    using limbs_val_bound [of a] by simp
  ultimately show ?thesis by (simp only: uint_sub_val [OF assms(1)] mod_add_self2 mod_less)
qed

lemma u64_madd:
  fixes c :: u64 and a x b :: u32
  assumes "unat c < 2 ^ 32"
  shows "unat (c + ucast a + ucast x * ucast b) = unat c + unat a + unat x * unat b"
    and "unat (hi32 (c + ucast a + ucast x * ucast b)) < 2 ^ 32"
proof -
  have "unat x * unat b \<le> (2 ^ 32 - 1) * (2 ^ 32 - 1)"
    using u32_less [of x] u32_less [of b] by (intro mult_le_mono) simp_all
  then have less: "unat c + unat a + unat x * unat b < 2 ^ 64"
    using assms u32_less [of a] by simp
  then show eq: "unat (c + ucast a + ucast x * ucast b) = unat c + unat a + unat x * unat b"
    by (simp add: unat_word_ariths unat_ucast_u64 mod_add_left_eq mod_add_right_eq)
  show "unat (hi32 (c + ucast a + ucast x * ucast b)) < 2 ^ 32"
    using less unfolding unat_hi32 eq by (simp add: div_less_iff_less_mult)
qed

lemma mul_inner_val:
  assumes "unat c < 2 ^ 32" "length as \<le> length bs"
  shows "limbs_val (mul_inner c as x bs) =
    (limbs_val as + unat x * limbs_val bs + unat c) mod 2 ^ (32 * length as)"
  using assms
proof (induction c as x bs rule: mul_inner.induct)
  case (1 c a as x b bs)
  define n where "n = c + ucast a + ucast x * ucast b"
  have n: "unat n = unat c + unat a + unat x * unat b" and hi: "unat (hi32 n) < 2 ^ 32"
    unfolding n_def using "1.prems"(1) by (simp_all only: u64_madd)
  have "limbs_val (mul_inner (hi32 n) as x bs) =
      (limbs_val as + unat x * limbs_val bs + unat n div 2 ^ 32) mod 2 ^ (32 * length as)"
    using "1.IH" [OF n_def hi] "1.prems"(2) by (simp add: unat_hi32)
  then have "limbs_val (mul_inner c (a # as) x (b # bs)) =
     unat n mod 2 ^ 32 + 2 ^ 32 * ((limbs_val as + unat x * limbs_val bs + unat n div 2 ^ 32) mod 2 ^ (32 * length as))"
    by (simp add: Let_def n_def [symmetric] unat_lo32)
  also have "\<dots> = (unat n + 2 ^ 32 * (limbs_val as + unat x * limbs_val bs)) mod (2 ^ 32 * 2 ^ (32 * length as))"
    by (rule div_mod_combine) simp
  finally show ?case by (simp add: n power_add algebra_simps)
qed auto

lemma mul_outer_val:
  assumes "j + length xs = length a" "length b = length a"
  shows "limbs_val (mul_outer j a xs b) =
    (limbs_val a + 2 ^ (32 * j) * limbs_val xs * limbs_val b) mod 2 ^ (32 * length a)"
  using assms
proof (induction j a xs b rule: mul_outer.induct)
  case (1 j a b)
  then show ?case using limbs_val_bound [of a] by simp
next
  case (2 j a x xs b)
  define a' where "a' = take j a @ mul_inner 0 (drop j a) x b"
  have len: "length a' = length a" using "2.prems" by (simp add: a'_def length_mul_inner)
  have j: "j + length (drop j a) = length a" using "2.prems" by simp
  have "limbs_val a' = limbs_val (take j a) +
      2 ^ (32 * j) * ((limbs_val (drop j a) + unat x * limbs_val b) mod 2 ^ (32 * length (drop j a)))"
    using "2.prems" by (simp add: a'_def limbs_val_append mul_inner_val)
  also have "\<dots> = limbs_val (take j a) mod 2 ^ (32 * j) + 2 ^ (32 * j) *
      ((limbs_val (drop j a) + unat x * limbs_val b + limbs_val (take j a) div 2 ^ (32 * j)) mod 2 ^ (32 * length (drop j a)))"
    using limbs_val_bound [of "take j a"] "2.prems" by (simp add: min_def)
  also have "\<dots> = (limbs_val (take j a) + 2 ^ (32 * j) * (limbs_val (drop j a) + unat x * limbs_val b))
      mod (2 ^ (32 * j) * 2 ^ (32 * length (drop j a)))"
    by (rule div_mod_combine) simp
  also have "2 ^ (32 * j) * 2 ^ (32 * length (drop j a)) = (2 ^ (32 * length a) :: nat)"
    by (simp only: power_add [symmetric] distrib_left [symmetric] j)
  also have "limbs_val (take j a) + 2 ^ (32 * j) * (limbs_val (drop j a) + unat x * limbs_val b) =
      limbs_val a + 2 ^ (32 * j) * (unat x * limbs_val b)"
    using limbs_val_append [of "take j a" "drop j a"] "2.prems" by (simp add: distrib_left min_def)
  finally have a': "limbs_val a' = (limbs_val a + 2 ^ (32 * j) * (unat x * limbs_val b)) mod 2 ^ (32 * length a)" .
  have "limbs_val (mul_outer (Suc j) a' xs b) =
      (limbs_val a' + 2 ^ (32 * Suc j) * limbs_val xs * limbs_val b) mod 2 ^ (32 * length a)"
    using "2.IH" [folded a'_def] "2.prems" len by simp
  also have "\<dots> = (limbs_val a + 2 ^ (32 * j) * (unat x * limbs_val b) +
      2 ^ (32 * Suc j) * limbs_val xs * limbs_val b) mod 2 ^ (32 * length a)"
    unfolding a' by (rule mod_add_left_eq)
  finally show ?case by (simp add: a'_def [symmetric] power_add algebra_simps)
qed

lemma mul32_loop_eq: "mul32_loop c as x = mul_inner c (replicate (length as) 0) x as"
  by (induction c as x rule: mul32_loop.induct) (simp_all add: Let_def)

lemma limbs_val_replicate_0: "limbs_val (replicate n 0) = 0"
  by (induction n) simp_all

lemma uint_mul_val:
  assumes "length a = WIDTH" "length b = WIDTH"
  shows "limbs_val (uint_mul a b) = (limbs_val a * limbs_val b) mod 2 ^ 256"
  using assms by (simp add: uint_mul_def uint_zero_def mul_outer_val limbs_val_replicate_0 WIDTH_def)

lemma uint_mul32_val: "limbs_val (uint_mul32 pn b) = (limbs_val pn * unat b) mod 2 ^ (32 * length pn)"
  by (simp add: uint_mul32_def mul32_loop_eq mul_inner_val limbs_val_replicate_0 mult.commute)

lemma bit_limbs_val_Cons:
  "bit (limbs_val (x # xs)) n \<longleftrightarrow> (if n < 32 then bit x n else bit (limbs_val xs) (n - 32))"
  using bit_add_shifted [OF u32_less, of x "limbs_val xs" n] by (simp only: limbs_val.simps bit_unat_u32)

lemma bit_limbs_val:
  "bit (limbs_val xs) n \<longleftrightarrow> n div 32 < length xs \<and> bit (xs ! (n div 32)) (n mod 32)"
proof (induction xs arbitrary: n)
  case (Cons x xs)
  show ?case
  proof (cases "n < 32")
    case True
    then show ?thesis by (simp add: bit_limbs_val_Cons del: limbs_val.simps)
  next
    case False
    then have "n div 32 = Suc ((n - 32) div 32)" "n mod 32 = (n - 32) mod 32"
      by (simp_all add: le_div_geq le_mod_geq)
    with False Cons [of "n - 32"] show ?thesis
      by (simp add: bit_limbs_val_Cons del: limbs_val.simps)
  qed
qed simp

lemma limbs_val_eqI:
  assumes "\<And>n. bit (limbs_val xs) n \<longleftrightarrow> bit (m :: nat) n"
  shows "limbs_val xs = m"
  by (rule bit_eqI) (simp add: assms)

lemma length_or_at: "length (or_at pn i w) = length pn"
  by (simp add: or_at_def)

lemma or_at_nth: "i < length pn \<Longrightarrow> or_at pn i w ! j = (if i = j then pn ! i OR w else pn ! j)"
  by (simp add: or_at_def nth_list_update)

lemma length_shl_step: "length (shl_step a k s pn i) = length pn"
  by (simp add: shl_step_def Let_def length_or_at)

lemma length_shr_step: "length (shr_step a k s pn i) = length pn"
  by (simp add: shr_step_def Let_def length_or_at)

lemma length_foldl_shl: "length (foldl (shl_step a k s) pn is) = length pn"
  by (induction "is" arbitrary: pn) (simp_all add: length_shl_step)

lemma length_foldl_shr: "length (foldl (shr_step a k s) pn is) = length pn"
  by (induction "is" arbitrary: pn) (simp_all add: length_shr_step)


lemma shl_fold_nth:
  assumes "length pn = WIDTH" "m < WIDTH" "n \<le> WIDTH"
  shows "foldl (shl_step a k s) pn [0..<n] ! m =
    pn ! m OR (if k \<le> m \<and> m < n + k then push_bit s (a ! (m - k)) else 0)
           OR (if k < m \<and> m \<le> n + k \<and> s \<noteq> 0 then drop_bit (32 - s) (a ! (m - k - 1)) else 0)"
  using assms(3)
proof (induction n)
  case 0
  then show ?case by auto
next
  case (Suc n)
  let ?p = "foldl (shl_step a k s) pn [0..<n]"
  have len: "length ?p = WIDTH" using assms by (simp add: length_foldl_shl)
  have step: "shl_step a k s ?p n ! m =
      ?p ! m OR (if m = n + k then push_bit s (a ! n) else 0)
             OR (if m = n + k + 1 \<and> s \<noteq> 0 then drop_bit (32 - s) (a ! n) else 0)"
    using assms(1,2) by (auto simp: shl_step_def Let_def or_at_nth length_or_at length_foldl_shl)
  consider "m = n + k" | "m = n + k + 1" | "m \<noteq> n + k" "m \<noteq> n + k + 1" by blast
  then show ?case
  proof cases
    case 1
    with step Suc show ?thesis by (simp add: ac_simps)
  next
    case 2
    with step Suc show ?thesis by (simp add: ac_simps)
  next
    case 3
    then have "(m < Suc n + k) = (m < n + k)" "(m \<le> Suc n + k) = (m \<le> n + k)" by auto
    moreover have "shl_step a k s ?p n ! m = ?p ! m" using step 3 by simp
    ultimately show ?thesis using Suc by simp
  qed
qed

lemma shift_split_le:
  fixes m k r t :: nat
  assumes "t \<le> r" "r < 32"
  shows "32 * k + t \<le> 32 * m + r \<longleftrightarrow> k \<le> m"
    and "k \<le> m \<Longrightarrow> (32 * m + r) - (32 * k + t) = 32 * (m - k) + (r - t)"
  using assms by auto

lemma shift_split_gt:
  fixes m k r t :: nat
  assumes "r < t" "t < 32"
  shows "32 * k + t \<le> 32 * m + r \<longleftrightarrow> k < m"
    and "k < m \<Longrightarrow> (32 * m + r) - (32 * k + t) = 32 * (m - k - 1) + (r + (32 - t))"
  using assms by auto

lemma shift_index_le:
  fixes n s :: nat
  assumes "s mod 32 \<le> n mod 32"
  shows "s \<le> n \<longleftrightarrow> s div 32 \<le> n div 32"
    and "s \<le> n \<Longrightarrow> (n - s) div 32 = n div 32 - s div 32"
    and "s \<le> n \<Longrightarrow> (n - s) mod 32 = n mod 32 - s mod 32"
proof -
  note split = shift_split_le [OF assms, of "s div 32" "n div 32", unfolded mult_div_mod_eq]
  show le: "s \<le> n \<longleftrightarrow> s div 32 \<le> n div 32" by (rule split) simp
  have r: "n mod 32 - s mod 32 < 32" by (simp add: less_imp_diff_less)
  show "s \<le> n \<Longrightarrow> (n - s) div 32 = n div 32 - s div 32"
    and "s \<le> n \<Longrightarrow> (n - s) mod 32 = n mod 32 - s mod 32"
    using div_mod_unique [OF split(2) r] le by simp_all
qed

lemma shift_index_gt:
  fixes n s :: nat
  assumes "n mod 32 < s mod 32"
  shows "s \<le> n \<longleftrightarrow> s div 32 < n div 32"
    and "s \<le> n \<Longrightarrow> (n - s) div 32 = n div 32 - s div 32 - 1"
    and "s \<le> n \<Longrightarrow> (n - s) mod 32 = n mod 32 + (32 - s mod 32)"
proof -
  note split = shift_split_gt [OF assms, of "s div 32" "n div 32", unfolded mult_div_mod_eq]
  show le: "s \<le> n \<longleftrightarrow> s div 32 < n div 32" by (rule split) simp
  have "s mod 32 < 32" by simp
  then have r: "n mod 32 + (32 - s mod 32) < 32" using assms by linarith
  show "s \<le> n \<Longrightarrow> (n - s) div 32 = n div 32 - s div 32 - 1"
    and "s \<le> n \<Longrightarrow> (n - s) mod 32 = n mod 32 + (32 - s mod 32)"
    using div_mod_unique [OF split(2) r] le by simp_all
qed

lemma uint_shl_bit:
  assumes "length a = WIDTH"
  shows "bit (limbs_val (uint_shl a s)) n \<longleftrightarrow> n < 256 \<and> s \<le> n \<and> bit (limbs_val a) (n - s)"
proof (cases "n < 256")
  case False
  then have "\<not> n div 32 < 8" by simp
  then show ?thesis using False by (simp add: bit_limbs_val uint_shl_def length_foldl_shl uint_zero_def WIDTH_def)
next
  case True
  then have m: "n div 32 < WIDTH" by (simp add: WIDTH_def)
  have r: "n mod 32 < 32" by simp
  have nth: "uint_shl a s ! (n div 32) =
     (if s div 32 \<le> n div 32 then push_bit (s mod 32) (a ! (n div 32 - s div 32)) else 0) OR
     (if s div 32 < n div 32 \<and> s mod 32 \<noteq> 0
      then drop_bit (32 - s mod 32) (a ! (n div 32 - s div 32 - 1)) else 0)"
    unfolding uint_shl_def using m
    by (subst shl_fold_nth) (simp_all add: uint_zero_def trans_less_add1 less_imp_le)
  have len: "length (uint_shl a s) = WIDTH" by (simp add: uint_shl_def length_foldl_shl uint_zero_def)
  have a: "bit (limbs_val a) (n - s) \<longleftrightarrow> bit (a ! ((n - s) div 32)) ((n - s) mod 32)"
    using assms True by (simp add: bit_limbs_val WIDTH_def div_less_iff_less_mult less_imp_diff_less)
  have L: "bit (limbs_val (uint_shl a s)) n \<longleftrightarrow> bit (uint_shl a s ! (n div 32)) (n mod 32)"
    using m by (simp add: bit_limbs_val len)
  show ?thesis
  proof (cases "s mod 32 \<le> n mod 32")
    case le: True
    have "\<not> bit (drop_bit (32 - s mod 32) (x :: u32)) (n mod 32)" for x
    proof
      assume "bit (drop_bit (32 - s mod 32) x) (n mod 32)"
      then have "32 - s mod 32 + n mod 32 < 32"
        using bit_imp_le_length [of x "32 - s mod 32 + n mod 32"] by (simp add: bit_drop_bit_eq)
      with le show False by simp
    qed
    then have "bit (uint_shl a s ! (n div 32)) (n mod 32) \<longleftrightarrow>
        s div 32 \<le> n div 32 \<and> bit (a ! (n div 32 - s div 32)) (n mod 32 - s mod 32)"
      using le r by (simp add: nth bit_or_iff bit_push_bit_iff)
    then show ?thesis using True by (cases "s \<le> n") (simp_all add: L a shift_index_le [OF le])
  next
    case False
    then have gt: "n mod 32 < s mod 32" by simp
    then have "bit (uint_shl a s ! (n div 32)) (n mod 32) \<longleftrightarrow>
        s div 32 < n div 32 \<and> bit (a ! (n div 32 - s div 32 - 1)) (n mod 32 + (32 - s mod 32))"
      using r by (simp add: nth bit_or_iff bit_push_bit_iff bit_drop_bit_eq add.commute)
    then show ?thesis using True by (cases "s \<le> n") (simp_all add: L a shift_index_gt [OF gt])
  qed
qed

lemma uint_shl_val:
  assumes "length a = WIDTH"
  shows "limbs_val (uint_shl a s) = (limbs_val a * 2 ^ s) mod 2 ^ 256"
proof -
  have "limbs_val (uint_shl a s) = take_bit 256 (push_bit s (limbs_val a))"
    by (rule limbs_val_eqI) (auto simp: uint_shl_bit [OF assms] bit_take_bit_iff bit_push_bit_iff)
  then show ?thesis by (simp only: take_bit_eq_mod push_bit_eq_mult)
qed

lemma shr_fold_nth:
  assumes "length pn = WIDTH" "m < WIDTH" "n \<le> WIDTH"
  shows "foldl (shr_step a k s) pn [0..<n] ! m =
    pn ! m OR (if m + k < n then drop_bit s (a ! (m + k)) else 0)
           OR (if m + k + 1 < n \<and> s \<noteq> 0 then push_bit (32 - s) (a ! (m + k + 1)) else 0)"
  using assms(3)
proof (induction n)
  case (Suc n)
  let ?p = "foldl (shr_step a k s) pn [0..<n]"
  have step: "shr_step a k s ?p n ! m =
      ?p ! m OR (if n = m + k then drop_bit s (a ! n) else 0)
             OR (if n = m + k + 1 \<and> s \<noteq> 0 then push_bit (32 - s) (a ! n) else 0)"
    using assms(1,2) Suc.prems
    by (auto simp: shr_step_def Let_def or_at_nth length_or_at length_foldl_shr)
  consider "n = m + k" | "n = m + k + 1" | "n \<noteq> m + k" "n \<noteq> m + k + 1" by blast
  then show ?case
  proof cases
    case 1
    with step Suc show ?thesis by (simp add: ac_simps)
  next
    case 2
    with step Suc show ?thesis by (simp add: ac_simps)
  next
    case 3
    then have "(m + k < Suc n) = (m + k < n)" "(m + k + 1 < Suc n) = (m + k + 1 < n)" by auto
    moreover have "shr_step a k s ?p n ! m = ?p ! m" using step 3 by simp
    ultimately show ?thesis using Suc by simp
  qed
qed simp

lemma add_index_less:
  fixes n s :: nat
  assumes "n mod 32 + s mod 32 < 32"
  shows "(n + s) div 32 = n div 32 + s div 32" and "(n + s) mod 32 = n mod 32 + s mod 32"
  using assms by (simp_all add: div_add1_eq [of n s] mod_add_eq [of n 32 s, symmetric])

lemma add_index_ge:
  fixes n s :: nat
  assumes "32 \<le> n mod 32 + s mod 32"
  shows "(n + s) div 32 = n div 32 + s div 32 + 1" and "(n + s) mod 32 = n mod 32 - (32 - s mod 32)"
proof -
  have lt: "n mod 32 < 32" "s mod 32 < 32" by simp_all
  have "n + s = (32 * (n div 32) + n mod 32) + (32 * (s div 32) + s mod 32)" by simp
  also have "\<dots> = 32 * (n div 32 + s div 32 + 1) + (n mod 32 - (32 - s mod 32))"
    using assms lt(2) by (simp only: distrib_left) linarith
  finally have *: "n + s = 32 * (n div 32 + s div 32 + 1) + (n mod 32 - (32 - s mod 32))" .
  show "(n + s) div 32 = n div 32 + s div 32 + 1" and "(n + s) mod 32 = n mod 32 - (32 - s mod 32)"
    using div_mod_unique [OF *] lt by (simp_all add: less_imp_diff_less)
qed

lemma uint_shr_bit:
  assumes "length a = WIDTH"
  shows "bit (limbs_val (uint_shr a s)) n \<longleftrightarrow> bit (limbs_val a) (n + s)"
proof (cases "n < 256")
  case False
  then have "\<not> n div 32 < 8" "\<not> (n + s) div 32 < 8" by (simp_all add: div_less_iff_less_mult)
  then show ?thesis using assms
    by (simp add: bit_limbs_val uint_shr_def length_foldl_shr uint_zero_def WIDTH_def)
next
  case True
  then have m: "n div 32 < WIDTH" by (simp add: WIDTH_def)
  have r: "n mod 32 < 32" by simp
  have nth: "uint_shr a s ! (n div 32) =
     (if n div 32 + s div 32 < WIDTH then drop_bit (s mod 32) (a ! (n div 32 + s div 32)) else 0) OR
     (if n div 32 + s div 32 + 1 < WIDTH \<and> s mod 32 \<noteq> 0
      then push_bit (32 - s mod 32) (a ! (n div 32 + s div 32 + 1)) else 0)"
    unfolding uint_shr_def using m
    by (subst shr_fold_nth) (simp_all add: uint_zero_def)
  have len: "length (uint_shr a s) = WIDTH" by (simp add: uint_shr_def length_foldl_shr uint_zero_def)
  have a: "bit (limbs_val a) (n + s) \<longleftrightarrow> (n + s) div 32 < WIDTH \<and> bit (a ! ((n + s) div 32)) ((n + s) mod 32)"
    using assms by (simp add: bit_limbs_val)
  have L: "bit (limbs_val (uint_shr a s)) n \<longleftrightarrow> bit (uint_shr a s ! (n div 32)) (n mod 32)"
    using m by (simp add: bit_limbs_val len)
  show ?thesis
  proof (cases "n mod 32 + s mod 32 < 32")
    case less: True
    then have "\<not> 32 - s mod 32 \<le> n mod 32" by linarith
    then have "bit (uint_shr a s ! (n div 32)) (n mod 32) \<longleftrightarrow>
        n div 32 + s div 32 < WIDTH \<and> bit (a ! (n div 32 + s div 32)) (n mod 32 + s mod 32)"
      by (simp add: nth bit_or_iff bit_push_bit_iff bit_drop_bit_eq add.commute)
    then show ?thesis by (simp add: L a add_index_less [OF less])
  next
    case False
    then have ge: "32 \<le> n mod 32 + s mod 32" by simp
    then have "\<not> bit (x :: u32) (s mod 32 + n mod 32)" for x
      using bit_imp_le_length [of x "s mod 32 + n mod 32"] by auto
    moreover have "32 - s mod 32 \<le> n mod 32" "s mod 32 \<noteq> 0" using ge r by linarith+
    ultimately have "bit (uint_shr a s ! (n div 32)) (n mod 32) \<longleftrightarrow>
        n div 32 + s div 32 + 1 < WIDTH \<and> bit (a ! (n div 32 + s div 32 + 1)) (n mod 32 - (32 - s mod 32))"
      by (simp add: nth bit_or_iff bit_push_bit_iff bit_drop_bit_eq)
    then show ?thesis by (simp only: L a add_index_ge [OF ge])
  qed
qed

lemma uint_shr_val:
  assumes "length a = WIDTH"
  shows "limbs_val (uint_shr a s) = limbs_val a div 2 ^ s"
proof -
  have "limbs_val (uint_shr a s) = drop_bit s (limbs_val a)"
    by (rule limbs_val_eqI) (simp add: uint_shr_bit [OF assms] bit_drop_bit_eq add.commute)
  then show ?thesis by (simp only: drop_bit_eq_div)
qed

lemma compare_loop_snoc:
  "length xs = length ys \<Longrightarrow> compare_loop (xs @ [x]) (ys @ [y]) =
    (if compare_loop xs ys = 0 then (if x < y then -1 else if y < x then 1 else 0) else compare_loop xs ys)"
  by (induction xs ys rule: list_induct2) auto

lemma CompareTo_val:
  "length a = length b \<Longrightarrow> CompareTo a b =
    (if limbs_val a < limbs_val b then -1 else if limbs_val b < limbs_val a then 1 else 0)"
proof (induction a b rule: list_induct2)
  case (Cons x xs y ys)
  have lt: "x < y \<longleftrightarrow> unat x < unat y" for x y :: u32 by (rule word_less_nat_alt)
  have step: "CompareTo (x # xs) (y # ys) =
      (if CompareTo xs ys = 0 then (if x < y then -1 else if y < x then 1 else 0) else CompareTo xs ys)"
    using Cons.hyps by (simp add: CompareTo_def compare_loop_snoc)
  have order: "p + 2 ^ 32 * u < q + 2 ^ 32 * v" if "u < v" "p < 2 ^ 32" for p q u v :: nat
  proof -
    have "2 ^ 32 * (u + 1) \<le> 2 ^ 32 * v" using that(1) by (intro mult_le_mono2) simp
    then show ?thesis using that(2) by simp
  qed
  show ?case
  proof (cases "limbs_val xs" "limbs_val ys" rule: linorder_cases)
    case less
    then show ?thesis using order [OF less u32_less] step Cons.IH by (simp add: less)
  next
    case equal
    then show ?thesis using step Cons.IH by (simp add: lt)
  next
    case greater
    have "\<not> limbs_val xs < limbs_val ys" using greater by simp
    then show ?thesis using order [OF greater u32_less] step Cons.IH greater by (simp add: not_less_iff_gr_or_eq)
  qed
qed (simp add: CompareTo_def)
lemma u32_and_bit: "(w :: u32) AND push_bit n 1 \<noteq> 0 \<longleftrightarrow> bit w n"
  by (simp add: and_exp_eq_0_iff_not_bit)

lemma bit_scan_le: "bit_scan w k \<le> k"
  by (induction w k rule: bit_scan.induct) auto

lemma bit_scan_bounds:
  assumes "w \<noteq> 0" "unat w < 2 ^ Suc k"
  shows "2 ^ bit_scan w k \<le> unat w \<and> unat w < 2 ^ Suc (bit_scan w k)"
  using assms(2)
proof (induction k)
  case 0
  then show ?case using assms(1) by (simp add: unat_gt_0 Suc_le_eq)
next
  case (Suc k)
  show ?case
  proof (cases "bit w (Suc k)")
    case True
    then have "2 ^ Suc k \<le> unat w" using nat_bit_bounds(1) [of "unat w" "Suc k"] by (simp add: bit_unat_u32)
    then show ?thesis using True Suc.prems u32_and_bit [of w "Suc k"] by simp
  next
    case False
    then have "unat w < 2 ^ Suc k" using nat_bit_bounds(2) [of "unat w" "Suc k"] Suc.prems by (simp add: bit_unat_u32)
    then show ?thesis using False Suc.IH u32_and_bit [of w "Suc k"] by simp
  qed
qed

lemma bits_loop_spec:
  assumes "n \<le> length pn"
  shows "limbs_val (take n pn) < 2 ^ bits_loop pn n \<and> (bits_loop pn n = 0 \<longleftrightarrow> limbs_val (take n pn) = 0) \<and>
    (limbs_val (take n pn) \<noteq> 0 \<longrightarrow> 2 ^ (bits_loop pn n - 1) \<le> limbs_val (take n pn)) \<and> bits_loop pn n \<le> 32 * n"
  using assms
proof (induction n)
  case (Suc n)
  have val: "limbs_val (take (Suc n) pn) = limbs_val (take n pn) + 2 ^ (32 * n) * unat (pn ! n)"
    using Suc.prems by (simp add: take_Suc_conv_app_nth limbs_val_append)
  show ?case
  proof (cases "pn ! n = 0")
    case True
    then show ?thesis using Suc val by simp
  next
    case False
    let ?h = "bit_scan (pn ! n) 31"
    have h: "2 ^ ?h \<le> unat (pn ! n)" "unat (pn ! n) + 1 \<le> 2 ^ Suc ?h"
      using bit_scan_bounds [OF False, of 31] u32_less [of "pn ! n"] by simp_all
    have low: "limbs_val (take n pn) < 2 ^ (32 * n)"
      using limbs_val_bound [of "take n pn"] Suc.prems by (simp add: min_def)
    have "2 ^ (32 * n) * 2 ^ ?h \<le> 2 ^ (32 * n) * unat (pn ! n)" using h(1) by (rule mult_le_mono2)
    then have "2 ^ (32 * n + ?h) \<le> limbs_val (take (Suc n) pn)"
      unfolding val power_add by (rule trans_le_add2)
    moreover have "2 ^ (32 * n) * (unat (pn ! n) + 1) \<le> 2 ^ (32 * n) * 2 ^ Suc ?h" using h(2) by (rule mult_le_mono2)
    then have "limbs_val (take (Suc n) pn) < 2 ^ (32 * n + ?h + 1)"
      unfolding val using low by (simp add: power_add)
    moreover have "?h \<le> 31" by (rule bit_scan_le)
    ultimately show ?thesis using False by auto
  qed
qed simp

lemma uint_bits_spec:
  assumes "length pn = WIDTH"
  shows "limbs_val pn < 2 ^ uint_bits pn" and "uint_bits pn = 0 \<longleftrightarrow> limbs_val pn = 0"
    and "limbs_val pn \<noteq> 0 \<Longrightarrow> 2 ^ (uint_bits pn - 1) \<le> limbs_val pn" and "uint_bits pn \<le> 256"
  using bits_loop_spec [of WIDTH pn] assms unfolding uint_bits_def by (simp_all add: WIDTH_def)

lemma or_at_val:
  assumes "length q = WIDTH" "s < 256" "2 ^ Suc s dvd limbs_val q"
  shows "limbs_val (or_at q (s div 32) (push_bit (s mod 32) 1)) = limbs_val q + 2 ^ s"
proof (rule limbs_val_eqI)
  fix n
  obtain c where c: "limbs_val q = 2 ^ Suc s * c" using assms(3) by (rule dvdE)
  have idx: "s div 32 < length q" using assms by (simp add: WIDTH_def div_less_iff_less_mult)
  have sum: "limbs_val q + 2 ^ s = 2 ^ s + 2 ^ Suc s * c" by (simp add: c)
  have "bit (limbs_val q) n \<longleftrightarrow> Suc s \<le> n \<and> bit c (n - Suc s)"
    using bit_add_shifted [of 0 "Suc s" c n] by (simp add: c del: power_Suc) 
  moreover have "bit (limbs_val q + 2 ^ s) n \<longleftrightarrow> (if n < Suc s then n = s else bit c (n - Suc s))"
    using bit_add_shifted [of "2 ^ s" "Suc s" c n] unfolding sum by (simp add: bit_exp_iff del: power_Suc)
  moreover have "bit (limbs_val (or_at q (s div 32) (push_bit (s mod 32) 1))) n \<longleftrightarrow>
      bit (limbs_val q) n \<or> n = s"
  proof (cases "n div 32 = s div 32")
    case True
    then have "n = s \<longleftrightarrow> n mod 32 = s mod 32" by (metis mult_div_mod_eq)
    then show ?thesis using idx True
      by (auto simp: bit_limbs_val length_or_at or_at_nth bit_or_iff bit_exp_iff)
  next
    case False
    then show ?thesis using idx by (auto simp: bit_limbs_val length_or_at or_at_nth)
  qed
  ultimately show "bit (limbs_val (or_at q (s div 32) (push_bit (s mod 32) 1))) n \<longleftrightarrow> bit (limbs_val q + 2 ^ s) n"
    by auto
qed

lemma div_loop_val:
  assumes "length num = WIDTH" "length dv = WIDTH" "length quot = WIDTH" "n \<le> 256"
    and "\<And>s. n = Suc s \<Longrightarrow> limbs_val dv = b * 2 ^ s"
    and "limbs_val num < b * 2 ^ n" "2 ^ n dvd limbs_val quot" "0 < b"
  shows "limbs_val (fst (div_loop n num dv quot)) = limbs_val quot + limbs_val num div b
       \<and> limbs_val (snd (div_loop n num dv quot)) = limbs_val num mod b
       \<and> length (fst (div_loop n num dv quot)) = WIDTH \<and> length (snd (div_loop n num dv quot)) = WIDTH"
  using assms
proof (induction n arbitrary: num dv quot)
  case (Suc s)
  have dv: "limbs_val dv = b * 2 ^ s" using Suc.prems(5) by simp
  have len: "length (uint_shr dv 1) = WIDTH"
    by (simp add: uint_shr_def length_foldl_shr uint_zero_def)
  have dv': "limbs_val (uint_shr dv 1) = b * 2 ^ r" if "s = Suc r" for r
    using Suc.prems(2) by (simp add: uint_shr_val dv that)
  have cmp: "CompareTo num dv \<ge> 0 \<longleftrightarrow> limbs_val dv \<le> limbs_val num"
    using Suc.prems(1,2) by (simp add: CompareTo_val)
  show ?case
  proof (cases "limbs_val dv \<le> limbs_val num")
    case True
    let ?q = "or_at quot (s div 32) (push_bit (s mod 32) 1)" and ?num = "uint_sub num dv"
    have q: "limbs_val ?q = limbs_val quot + 2 ^ s" using Suc.prems by (intro or_at_val) simp_all
    have num: "limbs_val ?num = limbs_val num - b * 2 ^ s"
      using uint_sub_val_le [OF _ True] Suc.prems(1,2) dv by simp
    have lq: "length ?q = WIDTH" and ln: "length ?num = WIDTH"
      using Suc.prems(1,2,3) by (simp_all add: length_or_at uint_sub_def uint_add_def length_add_loop length_uint_neg)
    have small: "limbs_val ?num < b * 2 ^ s"
      using Suc.prems(6) True unfolding num dv by simp
    have dvd: "2 ^ s dvd limbs_val ?q"
      unfolding q using Suc.prems(7) by (metis dvd_add dvd_refl power_le_dvd le_SucI order_refl)
    obtain c where c: "limbs_val num = b * 2 ^ s + c" using True dv le_Suc_ex by metis
    have "limbs_val num div b = 2 ^ s + limbs_val ?num div b" "limbs_val num mod b = limbs_val ?num mod b"
      using Suc.prems(8) unfolding num by (simp_all add: c)
    then show ?thesis
      using Suc.IH [OF ln len lq _ dv' small dvd Suc.prems(8)] Suc.prems(4) True cmp q by simp
  next
    case False
    have small: "limbs_val num < b * 2 ^ s" using False dv by simp
    have dvd: "2 ^ s dvd limbs_val quot" using Suc.prems(7) by (metis power_le_dvd le_SucI order_refl)
    show ?thesis
      using Suc.IH [OF Suc.prems(1) len Suc.prems(3) _ dv' small dvd Suc.prems(8)] Suc.prems(4) False cmp by simp
  qed
qed auto

lemma uint_div_val:
  assumes "length a = WIDTH" "length b = WIDTH" "limbs_val b \<noteq> 0"
  shows "\<exists>q. uint_div a b = Inr q \<and> length q = WIDTH \<and> limbs_val q = limbs_val a div limbs_val b"
proof -
  have z: "limbs_val uint_zero = 0" "length uint_zero = WIDTH"
    by (simp_all add: uint_zero_def limbs_val_replicate_0)
  have bb: "uint_bits b \<noteq> 0" using uint_bits_spec(2) [OF assms(2)] assms(3) by simp
  show ?thesis
  proof (cases "uint_bits b > uint_bits a")
    case True
    have "limbs_val a < 2 ^ uint_bits a" by (rule uint_bits_spec(1) [OF assms(1)])
    also have "\<dots> \<le> 2 ^ (uint_bits b - 1)" using True by (intro power_increasing) simp_all
    also have "\<dots> \<le> limbs_val b" by (rule uint_bits_spec(3) [OF assms(2,3)])
    finally show ?thesis using True bb z by (simp add: uint_div_def)
  next
    case False
    let ?s = "uint_bits a - uint_bits b"
    have exp: "uint_bits b + ?s = uint_bits a" using False by simp
    have "limbs_val b * 2 ^ ?s < 2 ^ uint_bits b * 2 ^ ?s"
      using uint_bits_spec(1) [OF assms(2)] by simp
    also have "\<dots> = 2 ^ uint_bits a" by (simp only: power_add [symmetric] exp)
    also have "\<dots> \<le> (2 ^ 256 :: nat)" using uint_bits_spec(4) [OF assms(1)] by (intro power_increasing) simp_all
    finally have dv: "limbs_val (uint_shl b ?s) = limbs_val b * 2 ^ ?s"
      by (simp add: uint_shl_val [OF assms(2)])
    have "limbs_val a < 2 ^ uint_bits a" by (rule uint_bits_spec(1) [OF assms(1)])
    also have "\<dots> = 2 ^ (uint_bits b - 1) * 2 ^ (?s + 1)"
      using bb exp by (simp only: power_add [symmetric]) simp
    also have "\<dots> \<le> limbs_val b * 2 ^ (?s + 1)"
      by (intro mult_le_mono1 uint_bits_spec(3) [OF assms(2,3)])
    finally have num: "limbs_val a < limbs_val b * 2 ^ (?s + 1)" .
    have le: "?s + 1 \<le> 256" using bb uint_bits_spec(4) [OF assms(1)] by simp
    have len: "length (uint_shl b ?s) = WIDTH" by (simp add: uint_shl_def length_foldl_shl uint_zero_def)
    show ?thesis using div_loop_val [OF assms(1) len z(2) le _ num] dv assms(3) bb False z
      by (simp add: uint_div_def Let_def del: div_loop.simps)
  qed
qed

section \<open>Conversions\<close>

lemma length_uint_ops [simp]:
  "length uint_zero = WIDTH" "length (uint_of_u64 b) = WIDTH"
  "length (uint_shl a s) = WIDTH" "length (uint_shr a s) = WIDTH"
  "length (uint_not a) = length a" "length (uint_neg a) = length a"
  "length a = WIDTH \<Longrightarrow> length c = WIDTH \<Longrightarrow> length (uint_add a c) = WIDTH"
  "length a = WIDTH \<Longrightarrow> length c = WIDTH \<Longrightarrow> length (uint_sub a c) = WIDTH"
  "length c = WIDTH \<Longrightarrow> length (uint_mul a c) = WIDTH"
  by (simp_all add: uint_zero_def uint_of_u64_def uint_shl_def uint_shr_def length_foldl_shl length_foldl_shr
      uint_not_def length_uint_neg uint_sub_def uint_add_def length_add_loop uint_mul_def length_mul_outer WIDTH_def)

lemma limbs_val_0_iff: "limbs_val xs = 0 \<longleftrightarrow> (\<forall>x \<in> set xs. x = 0)"
  by (induction xs) (auto simp: unat_eq_0)

lemma uint_of_u64_val [limb_val]: "limbs_val (uint_of_u64 b) = unat b"
proof -
  have "unat b div 2 ^ 32 < 2 ^ 32"
    using unsigned_less [of b, where ?'a = nat] by (simp add: div_less_iff_less_mult)
  then have "limbs_val (uint_of_u64 b) = unat b mod 2 ^ 32 + 2 ^ 32 * (unat b div 2 ^ 32)"
    using unat_hi32 [of b]
    by (simp add: uint_of_u64_def limbs_val_append limbs_val_replicate_0 unat_ucast_u32 hi32_def)
  then show ?thesis by (simp only: mod_mult_div_eq)
qed

lemma GetLow64_val:
  assumes "length pn = WIDTH"
  shows "unat (GetLow64 pn) = limbs_val pn mod 2 ^ 64"
proof (rule bit_eqI)
  fix n
  have "bit (unat (GetLow64 pn)) n \<longleftrightarrow> bit (GetLow64 pn) n" by (simp add: bit_unsigned_iff)
  also have "\<dots> \<longleftrightarrow> n < 64 \<and> bit (pn ! (n div 32)) (n mod 32)"
  proof (cases "n < 32")
    case True
    then show ?thesis by (simp add: GetLow64_def bit_or_iff bit_push_bit_iff bit_ucast_iff)
  next
    case False
    have "n div 32 = 1 \<and> n mod 32 = n - 32" if "n < 64"
      using that False by (intro div_mod_unique) simp_all
    moreover have "\<not> bit (pn ! 0) n" using False bit_imp_le_length [of "pn ! 0" n] by auto
    ultimately show ?thesis using False
      by (auto simp: GetLow64_def bit_or_iff bit_push_bit_iff bit_ucast_iff)
  qed
  also have "\<dots> \<longleftrightarrow> bit (take_bit 64 (limbs_val pn)) n"
    using assms by (auto simp: bit_take_bit_iff bit_limbs_val WIDTH_def div_less_iff_less_mult)
  finally show "bit (unat (GetLow64 pn)) n \<longleftrightarrow> bit (limbs_val pn mod 2 ^ 64) n"
    by (simp only: take_bit_eq_mod)
qed

lemma EqualTo_val:
  assumes "length pn = WIDTH"
  shows "EqualTo pn b \<longleftrightarrow> limbs_val pn = unat b"
proof -
  have "length pn = Suc (Suc 6)" using assms by (simp add: WIDTH_def)
  then obtain p0 p1 rest where pn: "pn = p0 # p1 # rest" and len: "length rest = 6"
    by (auto simp only: length_Suc_conv)
  let ?b = "unat b" and ?R = "limbs_val rest"
  have mask: "unat (b AND 0xFFFFFFFF) = ?b mod 2 ^ 32"
  proof -
    have "b AND 0xFFFFFFFF = take_bit 32 b" by (simp add: take_bit_eq_mask mask_eq_exp_minus_1)
    moreover have "unat (take_bit 32 b) = unat b mod 2 ^ 32"
      by (simp only: unsigned_take_bit_eq) (simp only: take_bit_eq_mod)
    ultimately show ?thesis by (simp only:)
  qed
  have low: "ucast p0 = b AND 0xFFFFFFFF \<longleftrightarrow> unat p0 = ?b mod 2 ^ 32"
    by (simp only: word_unat_eq_iff mask unat_ucast_u64)
  have high: "ucast p1 = drop_bit 32 b \<longleftrightarrow> unat p1 = ?b div 2 ^ 32"
    by (simp only: word_unat_eq_iff unat_hi32 [unfolded hi32_def] unat_ucast_u64)
  have "(\<exists>i \<in> set [2..<WIDTH]. pn ! i \<noteq> 0) \<longleftrightarrow> (\<exists>x \<in> set rest. x \<noteq> 0)"
  proof -
    have "set [2..<WIDTH] = Suc ` Suc ` {..<6}" by (auto simp: WIDTH_def image_iff Suc_le_eq numeral_eq_Suc less_Suc_eq)
    then show ?thesis unfolding pn using len by (fastforce simp: in_set_conv_nth)
  qed
  then have zero: "(\<exists>i \<in> set [2..<WIDTH]. pn ! i \<noteq> 0) \<longleftrightarrow> ?R \<noteq> 0"
    by (simp add: limbs_val_0_iff)
  have d: "?b div 2 ^ 32 < 2 ^ 32"
    using unsigned_less [of b, where ?'a = nat] by (simp add: div_less_iff_less_mult)
  have "limbs_val pn = ?b \<longleftrightarrow> unat p0 = ?b mod 2 ^ 32 \<and> unat p1 + 2 ^ 32 * ?R = ?b div 2 ^ 32"
  proof
    assume "limbs_val pn = ?b"
    then have "?b = unat p0 + 2 ^ 32 * (unat p1 + 2 ^ 32 * ?R)" unfolding pn by simp
    then have "?b = 2 ^ 32 * (unat p1 + 2 ^ 32 * ?R) + unat p0" by (simp only: add.commute)
    from div_mod_unique [OF this u32_less]
    show "unat p0 = ?b mod 2 ^ 32 \<and> unat p1 + 2 ^ 32 * ?R = ?b div 2 ^ 32" by simp
  next
    assume "unat p0 = ?b mod 2 ^ 32 \<and> unat p1 + 2 ^ 32 * ?R = ?b div 2 ^ 32"
    then have "limbs_val pn = ?b mod 2 ^ 32 + 2 ^ 32 * (?b div 2 ^ 32)" unfolding pn by (simp only: limbs_val.simps)
    then show "limbs_val pn = ?b" by (simp only: mod_mult_div_eq)
  qed
  moreover have "unat p1 + 2 ^ 32 * ?R = ?b div 2 ^ 32 \<longleftrightarrow> ?R = 0 \<and> unat p1 = ?b div 2 ^ 32"
    using d by (cases "?R = 0") auto
  ultimately show ?thesis using low high zero by (simp add: EqualTo_def pn)
qed

lemma ReadLE32_WriteLE32: "ReadLE32 (WriteLE32 x @ r) = x"
proof (rule bit_word_eqI)
  fix n assume "n < LENGTH(32)"
  then consider "n < 8" | "8 \<le> n" "n < 16" | "16 \<le> n" "n < 24" | "24 \<le> n" "n < 32" by force
  then show "bit (ReadLE32 (WriteLE32 x @ r)) n = bit x n"
    by cases (auto simp: ReadLE32_def WriteLE32_def bit_or_iff bit_push_bit_iff bit_ucast_iff bit_drop_bit_eq)
qed

lemma WriteLE32_ReadLE32:
  assumes "length p = 4"
  shows "WriteLE32 (ReadLE32 (p @ r)) = p"
proof -
  obtain a b c d where p: "p = [a, b, c, d]"
    using assms by (auto simp: numeral_eq_Suc length_Suc_conv)
  have "\<not> bit (w :: u8) n" if "8 \<le> n" for w n using that bit_imp_le_length [of w n] by auto
  then show ?thesis unfolding p WriteLE32_def ReadLE32_def
    by (auto intro!: bit_word_eqI simp: bit_or_iff bit_push_bit_iff bit_ucast_iff bit_drop_bit_eq)
qed

lemma UintToArith256_ArithToUint256:
  assumes "length a = WIDTH"
  shows "UintToArith256 (ArithToUint256 a) = a"
proof (rule nth_equalityI)
  show "length (UintToArith256 (ArithToUint256 a)) = length a" using assms by (simp add: UintToArith256_def)
  fix i assume "i < length (UintToArith256 (ArithToUint256 a))"
  then have i: "i < length a" using assms by (simp add: UintToArith256_def)
  have len: "length (concat (map WriteLE32 xs)) = 4 * length xs" for xs
    by (induction xs) (simp_all add: WriteLE32_def)
  have "a = take i a @ a ! i # drop (Suc i) a" using i by (rule id_take_nth_drop)
  then have "ArithToUint256 a = concat (map WriteLE32 (take i a)) @ WriteLE32 (a ! i) @ concat (map WriteLE32 (drop (Suc i) a))"
    unfolding ArithToUint256_def by (metis concat.simps(2) concat_append list.simps(9) map_append)
  moreover have "length (concat (map WriteLE32 (take i a))) = i * 4" using i by (simp add: len)
  ultimately have "drop (i * 4) (ArithToUint256 a) = WriteLE32 (a ! i) @ concat (map WriteLE32 (drop (Suc i) a))"
    by simp
  then show "UintToArith256 (ArithToUint256 a) ! i = a ! i"
    using i assms by (simp add: UintToArith256_def ReadLE32_WriteLE32)
qed

lemma ArithToUint256_UintToArith256:
  assumes "length b = 32"
  shows "ArithToUint256 (UintToArith256 b) = b"
proof -
  have "concat (map (\<lambda>x. WriteLE32 (ReadLE32 (drop (x * 4) b))) [0..<n]) = take (4 * n) b" if "n \<le> 8" for n
    using that
  proof (induction n)
    case (Suc n)
    have "drop (n * 4) b = take 4 (drop (n * 4) b) @ drop 4 (drop (n * 4) b)"
      by (rule append_take_drop_id [symmetric])
    then have "WriteLE32 (ReadLE32 (drop (n * 4) b)) = take 4 (drop (n * 4) b)"
      using WriteLE32_ReadLE32 [of "take 4 (drop (n * 4) b)" "drop 4 (drop (n * 4) b)"] assms Suc.prems
      by (simp only: length_take length_drop)
    moreover have "take (n * 4 + 4) b = take (n * 4) b @ take 4 (drop (n * 4) b)" by (rule take_add)
    moreover have "4 * Suc n = n * 4 + 4" "4 * n = n * 4" by simp_all
    moreover have "concat (map (\<lambda>x. WriteLE32 (ReadLE32 (drop (x * 4) b))) [0..<n]) = take (4 * n) b"
      using Suc.IH Suc.prems by (simp only: Suc_leD)
    ultimately show ?case by (simp only: upt_Suc_append le0 map_append concat_append list.map concat.simps append_Nil2)
  qed simp
  from this [of 8] show ?thesis using assms by (simp add: ArithToUint256_def UintToArith256_def WIDTH_def comp_def)
qed

section \<open>The interface of the target arithmetic\<close>

text \<open>
  What the proof-of-work code relies on: bounded unsigned integers with a reading as a
  natural number, wrapping addition and multiplication, exact subtraction where it does
  not underflow, truncating division that raises on zero, and a three-way comparison.
\<close>

locale uint_arith =
  fixes val :: "'a \<Rightarrow> nat" and wf :: "'a \<Rightarrow> bool" and modulus :: nat
    and add :: "'a \<Rightarrow> 'a \<Rightarrow> 'a" and sub :: "'a \<Rightarrow> 'a \<Rightarrow> 'a" and mul :: "'a \<Rightarrow> 'a \<Rightarrow> 'a"
    and dvd_op :: "'a \<Rightarrow> 'a \<Rightarrow> 'e + 'a" and cmp :: "'a \<Rightarrow> 'a \<Rightarrow> int"
  assumes val_less: "wf a \<Longrightarrow> val a < modulus"
    and wf_ops: "wf a \<Longrightarrow> wf b \<Longrightarrow> wf (add a b) \<and> wf (sub a b) \<and> wf (mul a b)"
    and val_add: "wf a \<Longrightarrow> wf b \<Longrightarrow> val (add a b) = (val a + val b) mod modulus"
    and val_sub: "wf a \<Longrightarrow> wf b \<Longrightarrow> val b \<le> val a \<Longrightarrow> val (sub a b) = val a - val b"
    and val_mul: "wf a \<Longrightarrow> wf b \<Longrightarrow> val (mul a b) = (val a * val b) mod modulus"
    and div_ok: "wf a \<Longrightarrow> wf b \<Longrightarrow> val b \<noteq> 0 \<Longrightarrow>
      \<exists>q. dvd_op a b = Inr q \<and> wf q \<and> val q = val a div val b"
    and div_zero: "wf a \<Longrightarrow> wf b \<Longrightarrow> val b = 0 \<Longrightarrow> \<exists>e. dvd_op a b = Inl e"
    and cmp_gt: "wf a \<Longrightarrow> wf b \<Longrightarrow> 0 < cmp a b \<longleftrightarrow> val b < val a"
begin

lemma div_cases:
  assumes "wf a" "wf b"
  obtains (zero) e where "val b = 0" "dvd_op a b = Inl e"
  | (ok) q where "val b \<noteq> 0" "dvd_op a b = Inr q" "wf q" "val q = val a div val b"
  using div_ok [OF assms] div_zero [OF assms] by blast

lemma val_mul_small: "wf a \<Longrightarrow> wf b \<Longrightarrow> val a * val b < modulus \<Longrightarrow> val (mul a b) = val a * val b"
  by (simp add: val_mul)

lemma val_add_small: "wf a \<Longrightarrow> wf b \<Longrightarrow> val a + val b < modulus \<Longrightarrow> val (add a b) = val a + val b"
  by (simp add: val_add)

lemma remainder:
  assumes "wf t" "wf d" "wf q" "val q = val t div val d" "val d \<noteq> 0"
  shows "wf (sub t (mul q d)) \<and> val (sub t (mul q d)) = val t mod val d"
proof -
  have le: "val q * val d \<le> val t" by (simp add: assms(4))
  then have "val q * val d < modulus" using val_less [OF assms(1)] by (rule order.strict_trans1)
  then have "val (mul q d) = val q * val d" by (rule val_mul_small [OF assms(3,2)])
  then show ?thesis
    using assms wf_ops le by (simp add: val_sub minus_div_mult_eq_mod)
qed

end

interpretation u256: uint_arith limbs_val wf_uint "2 ^ 256" uint_add uint_sub uint_mul uint_div CompareTo
proof (unfold_locales, unfold wf_uint_def)
  fix a b :: base_uint
  show "length a = WIDTH \<Longrightarrow> limbs_val a < 2 ^ 256"
    using limbs_val_bound [of a] by (simp add: WIDTH_def)
  assume a: "length a = WIDTH" and b: "length b = WIDTH"
  show "length (uint_add a b) = WIDTH \<and> length (uint_sub a b) = WIDTH \<and> length (uint_mul a b) = WIDTH"
    using a b by simp
  show "limbs_val (uint_add a b) = (limbs_val a + limbs_val b) mod 2 ^ 256"
    using a b uint_add_val [of a b] by (simp add: WIDTH_def)
  show "limbs_val b \<le> limbs_val a \<Longrightarrow> limbs_val (uint_sub a b) = limbs_val a - limbs_val b"
    using a b by (intro uint_sub_val_le) simp_all
  show "limbs_val (uint_mul a b) = (limbs_val a * limbs_val b) mod 2 ^ 256"
    using a b by (rule uint_mul_val)
  show "limbs_val b \<noteq> 0 \<Longrightarrow> \<exists>q. uint_div a b = Inr q \<and> length q = WIDTH \<and> limbs_val q = limbs_val a div limbs_val b"
    using a b by (rule uint_div_val)
  show "limbs_val b = 0 \<Longrightarrow> \<exists>e. uint_div a b = Inl e"
    using uint_bits_spec(2) [OF b] by (simp add: uint_div_def)
  show "0 < CompareTo a b \<longleftrightarrow> limbs_val b < limbs_val a"
    using a b by (simp add: CompareTo_val)
qed

section \<open>Properties\<close>

text \<open>
  C31. \<^verbatim>\<open>base_uint::operator*=\<close> on 256-bit numbers, which multiplies limb by limb with a 64-bit
  carry and stores into a fresh array, computes the product modulo \<open>2 ^ 256\<close>.
\<close>

theorem uint_mul_exact:
  assumes "length a = WIDTH" "length b = WIDTH"
  shows "limbs_val (uint_mul a b) = limbs_val a * limbs_val b mod 2 ^ 256 \<and> length (uint_mul a b) = WIDTH"
  using uint_mul_val [OF assms] assms by simp

theorem uint_mul_exact_witness:
  "limbs_val (uint_mul (uint_not uint_zero) (uint_not uint_zero)) = (2 ^ 256 - 1) * (2 ^ 256 - 1) mod 2 ^ 256"
proof -
  have "limbs_val (uint_not uint_zero) = 2 ^ 256 - 1"
    using uint_not_val [of uint_zero] by (simp add: uint_zero_def limbs_val_replicate_0 WIDTH_def)
  then show ?thesis using uint_mul_exact [of "uint_not uint_zero" "uint_not uint_zero"] by simp
qed

text \<open>
  C30. \<^verbatim>\<open>base_uint::operator/=\<close> throws \<^verbatim>\<open>uint_error("Division by zero")\<close> exactly for a zero divisor;
  otherwise its shift-and-subtract loop ends with the quotient rounded down.
\<close>

theorem uint_div_exact:
  assumes "length a = WIDTH" "length b = WIDTH"
  shows "if limbs_val b = 0 then uint_div a b = Inl (UintError ''Division by zero'')
    else \<exists>q. uint_div a b = Inr q \<and> length q = WIDTH \<and> limbs_val q = limbs_val a div limbs_val b"
  using uint_div_val [OF assms] uint_bits_spec(2) [OF assms(2)] by (simp add: uint_div_def)

theorem uint_div_exact_witness:
  "\<exists>q. uint_div (uint_of_u64 1000) (uint_of_u64 7) = Inr q \<and> limbs_val q = 142"
  using uint_div_exact [of "uint_of_u64 1000" "uint_of_u64 7"] by (auto simp: uint_of_u64_val)

end
