(* ===== verification/Compact.thy ===== *)
theory Compact
  imports Arith_Uint256
begin

unbundle bit_operations_syntax

text \<open>
  The compact encoding of difficulty targets (\<^verbatim>\<open>arith_uint256::SetCompact\<close> and
  \<^verbatim>\<open>GetCompact\<close> in \<^verbatim>\<open>src/core/src/arith_uint256.cpp\<close>): a byte count and a 23-bit mantissa.
  Encoding never trips its assertions, decoding what it produced rounds the number down to
  the mantissa's precision, never sets the negative or the overflow flag, and is monotone.
\<close>

section \<open>Encoding and decoding\<close>

definition SetCompact :: "u32 \<Rightarrow> base_uint \<times> bool \<times> bool" where
  "SetCompact nCompact =
     (let nSize = unat (drop_bit 24 nCompact);
          nWord0 = nCompact AND 0x007FFFFF;
          nWord = (if nSize \<le> 3 then drop_bit (8 * (3 - nSize)) nWord0 else nWord0);
          this = (if nSize \<le> 3 then uint_of_u64 (ucast nWord)
                  else uint_shl (uint_of_u64 (ucast nWord)) (8 * (nSize - 3)));
          fNegative = (nWord \<noteq> 0 \<and> nCompact AND 0x00800000 \<noteq> 0);
          fOverflow = (nWord \<noteq> 0 \<and> (nSize > 34 \<or> (nWord > 0xFF \<and> nSize > 33) \<or>
                                     (nWord > 0xFFFF \<and> nSize > 32)))
      in (this, fNegative, fOverflow))"

definition GetCompact :: "base_uint \<Rightarrow> bool \<Rightarrow> u32 res" where
  "GetCompact a fNegative =
     (let nSize0 = (uint_bits a + 7) div 8;
          nCompact0 = (if nSize0 \<le> 3 then ucast (push_bit (8 * (3 - nSize0)) (GetLow64 a))
                       else ucast (GetLow64 (uint_shr a (8 * (nSize0 - 3)))) :: u32);
          high = (nCompact0 AND 0x00800000 \<noteq> 0);
          nCompact1 = (if high then drop_bit 8 nCompact0 else nCompact0);
          nSize = (if high then nSize0 + 1 else nSize0)
      in if nCompact1 AND NOT 0x007FFFFF \<noteq> 0 then Inl AssertionFailed
         else if \<not> nSize < 256 then Inl AssertionFailed
         else let nCompact = nCompact1 OR push_bit 24 (of_nat nSize)
              in Inr (nCompact OR (if fNegative \<and> nCompact AND 0x007FFFFF \<noteq> 0 then 0x00800000 else 0)))"

definition compact_target :: "u32 \<Rightarrow> base_uint" where
  "compact_target nCompact = fst (SetCompact nCompact)"

section \<open>The rounding they compute, on natural numbers\<close>

text \<open>The least exponent that leaves at most 23 mantissa bits, and the number rounded down to it.\<close>

fun compact_exp :: "nat \<Rightarrow> nat" where
  "compact_exp v = (if v < 2 ^ 23 then 0 else Suc (compact_exp (v div 256)))"

declare compact_exp.simps [simp del]

definition compact_floor :: "nat \<Rightarrow> nat" where
  "compact_floor v = v div 256 ^ compact_exp v * 256 ^ compact_exp v"

text \<open>
  The pair the encoder packs: the byte count (one more when the sign bit of the mantissa
  would be set) and the mantissa below \<open>2 ^ 23\<close>.
\<close>

definition byte_count :: "base_uint \<Rightarrow> nat" where
  "byte_count a = (uint_bits a + 7) div 8"

definition mantissa0 :: "base_uint \<Rightarrow> u32" where
  "mantissa0 a = (if byte_count a \<le> 3 then ucast (push_bit (8 * (3 - byte_count a)) (GetLow64 a))
                  else ucast (GetLow64 (uint_shr a (8 * (byte_count a - 3)))))"

definition packed_size :: "base_uint \<Rightarrow> nat" where
  "packed_size a = (if unat (mantissa0 a) < 2 ^ 23 then byte_count a else byte_count a + 1)"

definition packed_mantissa :: "base_uint \<Rightarrow> nat" where
  "packed_mantissa a = (if unat (mantissa0 a) < 2 ^ 23 then unat (mantissa0 a) else unat (mantissa0 a) div 256)"

lemma pow256: "(256 :: nat) ^ n = 2 ^ (8 * n)"
  by (simp add: power_mult)

lemma compact_exp_less: "v < 2 ^ (8 * compact_exp v + 23)"
proof (induction v rule: compact_exp.induct)
  case (1 v)
  show ?case
  proof (cases "v < 2 ^ 23")
    case True
    then show ?thesis by (simp add: compact_exp.simps [of v])
  next
    case False
    with 1 have "v div 256 < 2 ^ (8 * compact_exp (v div 256) + 23)" by simp
    then have "v < 2 ^ (8 * compact_exp (v div 256) + 23) * 256" by (simp only: div_less_iff_less_mult zero_less_numeral)
    then show ?thesis using False by (simp add: compact_exp.simps [of v] power_add)
  qed
qed

lemma compact_exp_ge: "0 < compact_exp v \<Longrightarrow> 2 ^ (8 * compact_exp v + 15) \<le> v"
proof (induction v rule: compact_exp.induct)
  case (1 v)
  then have ge: "\<not> v < 2 ^ 23" by (auto simp: compact_exp.simps [of v])
  then have e: "compact_exp v = Suc (compact_exp (v div 256))" by (simp add: compact_exp.simps [of v])
  show ?case
  proof (cases "compact_exp (v div 256) = 0")
    case True
    then show ?thesis using ge e by simp
  next
    case False
    with 1 ge have "2 ^ (8 * compact_exp (v div 256) + 15) \<le> v div 256" by simp
    then have "2 ^ (8 * compact_exp (v div 256) + 15) * 256 \<le> v" by (simp only: less_eq_div_iff_mult_less_eq zero_less_numeral)
    then show ?thesis by (simp add: e power_add)
  qed
qed

lemma compact_exp_eqI:
  assumes "v < 2 ^ (8 * e + 23)" "0 < e \<Longrightarrow> 2 ^ (8 * e + 15) \<le> v"
  shows "compact_exp v = e"
proof (cases "compact_exp v" e rule: linorder_cases)
  case less
  then have "2 ^ (8 * e + 15) \<le> v" by (intro assms) simp
  also have "v < 2 ^ (8 * compact_exp v + 23)" by (rule compact_exp_less)
  also have "\<dots> \<le> 2 ^ (8 * e + 15)" using less by (intro power_increasing) simp_all
  finally show ?thesis by simp
next
  case greater
  then have "2 ^ (8 * compact_exp v + 15) \<le> v" by (intro compact_exp_ge) simp
  also have "v < 2 ^ (8 * e + 23)" by (rule assms)
  also have "\<dots> \<le> 2 ^ (8 * compact_exp v + 15)" using greater by (intro power_increasing) simp_all
  finally show ?thesis by simp
qed

lemma compact_floor_le: "compact_floor v \<le> v"
  by (simp add: compact_floor_def)

lemma compact_floor_mono:
  assumes "v \<le> w"
  shows "compact_floor v \<le> compact_floor w"
proof (cases "compact_exp v" "compact_exp w" rule: linorder_cases)
  case less
  have "v < 2 ^ (8 * compact_exp v + 23)" by (rule compact_exp_less)
  also have "\<dots> \<le> 2 ^ (8 * compact_exp w + 15)" using less by (intro power_increasing) simp_all
  finally have v: "v < 2 ^ (8 * compact_exp w + 15)" .
  have pow: "(2 :: nat) ^ (8 * compact_exp w + 15) = 2 ^ 15 * 256 ^ compact_exp w" by (simp add: pow256 power_add)
  have "2 ^ (8 * compact_exp w + 15) \<le> w" using less by (intro compact_exp_ge) simp
  then have "2 ^ 15 * 256 ^ compact_exp w div 256 ^ compact_exp w \<le> w div 256 ^ compact_exp w"
    unfolding pow by (rule div_le_mono)
  then have "2 ^ 15 \<le> w div 256 ^ compact_exp w" by simp
  then have "2 ^ 15 * 256 ^ compact_exp w \<le> compact_floor w" unfolding compact_floor_def by (rule mult_le_mono1)
  with v compact_floor_le [of v] show ?thesis unfolding pow by simp
next
  case equal
  then show ?thesis unfolding compact_floor_def using assms by (simp add: div_le_mono)
next
  case greater
  then have "2 ^ (8 * compact_exp v + 15) \<le> v" by (intro compact_exp_ge) simp
  also have "v \<le> w" by (rule assms)
  also have "w < 2 ^ (8 * compact_exp w + 23)" by (rule compact_exp_less)
  also have "\<dots> \<le> 2 ^ (8 * compact_exp v + 15)" using greater by (intro power_increasing) simp_all
  finally show ?thesis by simp
qed

lemma compact_floor_pos: "0 < v \<Longrightarrow> 0 < compact_floor v"
proof (cases "compact_exp v = 0")
  case False
  assume "0 < v"
  have "2 ^ (8 * compact_exp v) \<le> (2 :: nat) ^ (8 * compact_exp v + 15)" by (intro power_increasing) simp_all
  also have "\<dots> \<le> v" using False by (intro compact_exp_ge) simp
  finally show ?thesis by (simp add: compact_floor_def pow256 div_greater_zero_iff)
qed (simp add: compact_floor_def)

section \<open>The word-level steps\<close>

lemma unat_u32_low: "unat ((c :: u32) AND 0x007FFFFF) = unat c mod 2 ^ 23"
proof -
  have "c AND 0x007FFFFF = take_bit 23 c" by (simp add: take_bit_eq_mask mask_eq_exp_minus_1)
  moreover have "unat (take_bit 23 c) = unat c mod 2 ^ 23"
    by (simp only: unsigned_take_bit_eq) (simp only: take_bit_eq_mod)
  ultimately show ?thesis by (simp only:)
qed

lemma unat_u32_drop: "unat (drop_bit n (c :: u32)) = unat c div 2 ^ n"
  by (simp only: unat_drop_bit_eq) (simp only: drop_bit_eq_div)

lemma u32_sign_bit: "(c :: u32) AND 0x00800000 \<noteq> 0 \<longleftrightarrow> bit (unat c) 23"
  using u32_and_bit [of c 23] by (simp add: bit_unat_u32)

lemma unat_or_size:
  assumes "unat (x :: u32) < 2 ^ 24" "n < 256"
  shows "unat (x OR push_bit 24 (of_nat n)) = unat x + 2 ^ 24 * n"
proof (rule bit_eqI)
  fix i
  have x: "\<not> bit x i" if "24 \<le> i"
  proof
    assume "bit x i"
    then have "2 ^ i \<le> unat x" using nat_bit_bounds(1) [of "unat x" i] by (simp add: bit_unat_u32)
    moreover have "(2 :: nat) ^ 24 \<le> 2 ^ i" using that by (rule power_increasing) simp
    ultimately show False using assms(1) by simp
  qed
  have n: "bit n j \<Longrightarrow> j < 8" for j
  proof (rule ccontr)
    assume "bit n j" "\<not> j < 8"
    then have "2 ^ j \<le> n" "(2 :: nat) ^ 8 \<le> 2 ^ j"
      using nat_bit_bounds(1) [of n j] power_increasing [of 8 j "2 :: nat"] by simp_all
    then show False using assms(2) by simp
  qed
  have "bit (unat (x OR push_bit 24 (of_nat n))) i \<longleftrightarrow> bit x i \<or> 24 \<le> i \<and> i < 32 \<and> bit n (i - 24)"
    by (auto simp: bit_unat_u32 bit_or_iff bit_push_bit_iff bit_of_nat_iff)
  moreover have "bit (unat x + 2 ^ 24 * n) i \<longleftrightarrow> (if i < 24 then bit x i else bit n (i - 24))"
    using bit_add_shifted [OF assms(1), of n i] by (simp only: bit_unat_u32)
  ultimately show "bit (unat (x OR push_bit 24 (of_nat n))) i \<longleftrightarrow> bit (unat x + 2 ^ 24 * n) i"
    using x n [of "i - 24"] by auto
qed

lemma u32_mask_zero:
  assumes "unat (x :: u32) < 2 ^ 23"
  shows "x AND NOT 0x007FFFFF = 0"
proof -
  have "unat (x AND 0x007FFFFF) = unat x" using assms by (simp only: unat_u32_low mod_less)
  then have "x AND 0x007FFFFF = x" by (simp only: word_unat_eq_iff)
  then have "x AND NOT 0x007FFFFF = (x AND 0x007FFFFF) AND NOT 0x007FFFFF" by simp
  also have "\<dots> = 0" by (simp only: and.assoc bit.conj_cancel_right and_zero_eq)
  finally show ?thesis .
qed

section \<open>Encoding\<close>

lemma byte_count_bounds:
  assumes "length a = WIDTH"
  shows "limbs_val a < 256 ^ byte_count a" "byte_count a \<le> 32"
    and "limbs_val a \<noteq> 0 \<Longrightarrow> 0 < byte_count a \<and> 256 ^ (byte_count a - 1) \<le> limbs_val a"
proof -
  note bits = uint_bits_spec [OF assms]
  have "limbs_val a < 2 ^ uint_bits a" by (rule bits)
  also have "\<dots> \<le> (2 :: nat) ^ (8 * byte_count a)"
    unfolding byte_count_def by (intro power_increasing) simp_all
  finally show "limbs_val a < 256 ^ byte_count a" by (simp only: pow256)
  show "byte_count a \<le> 32" using bits(4) by (simp add: byte_count_def)
  assume v: "limbs_val a \<noteq> 0"
  then have "uint_bits a \<noteq> 0" using bits(2) by simp
  then have pos: "0 < byte_count a" and "8 * (byte_count a - 1) \<le> uint_bits a - 1"
    unfolding byte_count_def by simp_all
  then have "(2 :: nat) ^ (8 * (byte_count a - 1)) \<le> 2 ^ (uint_bits a - 1)" by (intro power_increasing) simp_all
  also have "\<dots> \<le> limbs_val a" using v by (rule bits)
  finally show "0 < byte_count a \<and> 256 ^ (byte_count a - 1) \<le> limbs_val a" using pos by (simp only: pow256)
qed

lemma mantissa_small:
  fixes v k :: nat
  assumes "v < 256 ^ k"
  shows "k \<le> 3 \<Longrightarrow> v * 256 ^ (3 - k) < 2 ^ 24" and "\<not> k \<le> 3 \<Longrightarrow> v div 256 ^ (k - 3) < 2 ^ 24"
proof -
  assume k: "k \<le> 3"
  have "v * 256 ^ (3 - k) < 256 ^ k * 256 ^ (3 - k)" using assms by simp
  also have "\<dots> = 256 ^ 3" using k by (simp only: power_add [symmetric]) simp
  finally show "v * 256 ^ (3 - k) < 2 ^ 24" by simp
next
  assume "\<not> k \<le> 3"
  then have "v < 256 ^ 3 * 256 ^ (k - 3)" using assms by (simp only: power_add [symmetric]) simp
  then show "v div 256 ^ (k - 3) < 2 ^ 24" by (simp add: div_less_iff_less_mult)
qed

lemma unat_u64_push: "unat (push_bit n (w :: u64)) = (unat w * 2 ^ n) mod 2 ^ 64"
proof -
  have "unat (push_bit n w) = take_bit 64 (push_bit n (unat w))" by (simp only: unsigned_push_bit_eq) simp
  then show ?thesis by (simp only: push_bit_eq_mult take_bit_eq_mod)
qed

lemma mantissa0_val:
  assumes "length a = WIDTH"
  shows "unat (mantissa0 a) = (if byte_count a \<le> 3 then limbs_val a * 256 ^ (3 - byte_count a)
                               else limbs_val a div 256 ^ (byte_count a - 3))"
proof -
  let ?v = "limbs_val a" and ?k = "byte_count a"
  note small = mantissa_small [OF byte_count_bounds(1) [OF assms]]
  show ?thesis
  proof (cases "?k \<le> 3")
    case True
    have "?v \<le> ?v * 256 ^ (3 - ?k)" by simp
    also have "\<dots> < 2 ^ 24" by (rule small(1) [OF True])
    finally have "unat (GetLow64 a) = ?v" by (simp add: GetLow64_val [OF assms])
    then have "unat (push_bit (8 * (3 - ?k)) (GetLow64 a)) = ?v * 256 ^ (3 - ?k)"
      using small(1) [OF True] by (simp only: unat_u64_push pow256) simp
    then show ?thesis using True small(1) [OF True] by (simp add: mantissa0_def unat_ucast_u32)
  next
    case False
    then show ?thesis using small(2) [OF False]
      by (simp add: mantissa0_def unat_ucast_u32 GetLow64_val uint_shr_val [OF assms] pow256)
  qed
qed

lemma mantissa0_less: "length a = WIDTH \<Longrightarrow> unat (mantissa0 a) < 2 ^ 24"
  using mantissa_small [OF byte_count_bounds(1)] by (simp add: mantissa0_val)

lemma packed_bounds:
  assumes "length a = WIDTH"
  shows "packed_size a \<le> 33" "packed_mantissa a < 2 ^ 23"
  using byte_count_bounds(2) [OF assms] mantissa0_less [OF assms]
  by (auto simp: packed_size_def packed_mantissa_def)

lemma GetCompact_packed:
  assumes "length a = WIDTH"
  shows "\<exists>c. GetCompact a False = Inr c \<and> unat c = packed_mantissa a + 2 ^ 24 * packed_size a"
proof -
  let ?high = "mantissa0 a AND 0x00800000 \<noteq> 0"
  let ?m = "if ?high then drop_bit 8 (mantissa0 a) else mantissa0 a"
  have less: "unat (mantissa0 a) < 2 ^ Suc 23" using mantissa0_less [OF assms] by simp
  have high: "?high \<longleftrightarrow> \<not> unat (mantissa0 a) < 2 ^ 23"
    unfolding u32_sign_bit using nat_bit_bounds [of "unat (mantissa0 a)" 23] less by auto
  have m: "unat ?m = packed_mantissa a"
    unfolding packed_mantissa_def high using unat_u32_drop [of 8 "mantissa0 a"] by simp
  have s: "(if ?high then byte_count a + 1 else byte_count a) = packed_size a"
    unfolding packed_size_def high by simp
  have "unat ?m < 2 ^ 23" unfolding m by (rule packed_bounds [OF assms])
  then have mask: "?m AND NOT 0x007FFFFF = 0" by (rule u32_mask_zero)
  have ok: "GetCompact a False = Inr (?m OR push_bit 24 (of_nat (packed_size a)))"
    unfolding GetCompact_def Let_def byte_count_def [symmetric] mantissa0_def [symmetric] s mask
    using packed_bounds(1) [OF assms] by simp
  have "unat (?m OR push_bit 24 (of_nat (packed_size a))) = unat ?m + 2 ^ 24 * packed_size a"
    using packed_bounds [OF assms] by (intro unat_or_size) (simp_all only: m, simp_all)
  with ok show ?thesis unfolding m by blast
qed

lemma packed_exp:
  assumes "length a = WIDTH"
  shows "compact_exp (limbs_val a) = packed_size a - 3"
proof -
  let ?v = "limbs_val a" and ?k = "byte_count a" and ?m = "unat (mantissa0 a)"
  note m = mantissa0_val [OF assms(1)]
  show ?thesis
  proof (cases "?m < 2 ^ 23")
    case True
    have "?v < 2 ^ (8 * (?k - 3) + 23)"
    proof (cases "?k \<le> 3")
      case le: True
      have "?v \<le> ?v * 256 ^ (3 - ?k)" by simp
      also have "\<dots> < 2 ^ 23" using True le by (simp add: m)
      finally show ?thesis using le by simp
    next
      case False
      then show ?thesis using True
        by (simp add: m div_less_iff_less_mult pow256 power_add mult.commute)
    qed
    moreover have "2 ^ (8 * (?k - 3) + 15) \<le> ?v" if "0 < ?k - 3"
    proof -
      have "uint_bits a \<noteq> 0" using that by (auto simp: byte_count_def)
      then have "?v \<noteq> 0" using uint_bits_spec(2) [OF assms] by simp
      then have ge: "256 ^ (?k - 1) \<le> ?v" using byte_count_bounds(3) [OF assms] by blast
      have "(2 :: nat) ^ (8 * (?k - 3) + 15) \<le> 2 ^ (8 * (?k - 1))"
        using that by (intro power_increasing) simp_all
      also note ge [unfolded pow256]
      finally show ?thesis .
    qed
    ultimately show ?thesis using True by (simp add: packed_size_def compact_exp_eqI)
  next
    case False
    have "?v < 2 ^ (8 * ?k)" using byte_count_bounds(1) [OF assms] by (simp only: pow256)
    also have "\<dots> \<le> (2 :: nat) ^ (8 * (?k - 2) + 23)" by (intro power_increasing) simp_all
    finally have "?v < 2 ^ (8 * (?k - 2) + 23)" .
    moreover have "2 ^ (8 * (?k - 2) + 15) \<le> ?v" if "0 < ?k - 2"
    proof -
      have "2 ^ 23 * 256 ^ (?k - 3) \<le> ?v"
        using False that by (cases "?k = 3") (auto simp: m not_less less_eq_div_iff_mult_less_eq)
      moreover have "8 * (?k - 2) + 15 = 23 + 8 * (?k - 3)" using that by simp
      ultimately show ?thesis by (simp only: pow256 power_add)
    qed
    ultimately show ?thesis using False by (simp add: packed_size_def compact_exp_eqI)
  qed
qed

lemma packed_small:
  assumes "length a = WIDTH" and that: "packed_size a \<le> 3"
  shows "packed_mantissa a = limbs_val a * 256 ^ (3 - packed_size a)"
proof -
  let ?v = "limbs_val a" and ?k = "byte_count a" and ?m = "unat (mantissa0 a)"
  note m = mantissa0_val [OF assms(1)]
  show ?thesis
  proof (cases "?m < 2 ^ 23")
    case True
    then show ?thesis using that by (simp add: packed_size_def packed_mantissa_def m)
  next
    case False
    then have k: "?k \<le> 2" "3 - ?k = Suc (2 - ?k)" using that by (simp_all add: packed_size_def)
    then have "?m = ?v * 256 ^ (2 - ?k) * 256" by (simp add: m)
    then show ?thesis using False k by (simp add: packed_size_def packed_mantissa_def del: m)
  qed
qed

lemma packed_large:
  assumes "length a = WIDTH" and that: "\<not> packed_size a \<le> 3"
  shows "packed_mantissa a = limbs_val a div 256 ^ (packed_size a - 3)"
proof -
  let ?v = "limbs_val a" and ?k = "byte_count a" and ?m = "unat (mantissa0 a)"
  note m = mantissa0_val [OF assms(1)]
  show ?thesis
  proof (cases "?m < 2 ^ 23")
    case True
    then show ?thesis using that by (simp add: packed_size_def packed_mantissa_def m)
  next
    case False
    then have k: "3 \<le> ?k" "?k - 2 = Suc (?k - 3)" using that by (simp_all add: packed_size_def)
    then have "?m = ?v div 256 ^ (?k - 3)" by (cases "?k = 3") (simp_all add: m)
    then have "?m div 256 = ?v div 256 ^ (?k - 2)" unfolding k by (simp only: power_Suc2 div_mult2_eq)
    then show ?thesis using False by (simp add: packed_size_def packed_mantissa_def)
  qed
qed

lemmas packed_spec = packed_exp packed_small packed_large

section \<open>Decoding\<close>

lemma SetCompact_packed:
  assumes c: "unat c = m + 2 ^ 24 * n" and m: "m < 2 ^ 23" and n: "n \<le> 33"
  shows "limbs_val (fst (SetCompact c)) =
      (if n \<le> 3 then m div 256 ^ (3 - n) else m * 256 ^ (n - 3) mod 2 ^ 256)"
    and "\<not> fst (snd (SetCompact c))"
    and "n \<le> 33 \<Longrightarrow> (n = 33 \<Longrightarrow> m < 2 ^ 16) \<Longrightarrow> \<not> snd (snd (SetCompact c))"
    and "length (fst (SetCompact c)) = WIDTH"
proof -
  have m24: "m < 2 ^ 24" using m by simp
  have "unat c = 2 ^ 24 * n + m" using c by (simp only: add.commute)
  then have dm: "unat c div 2 ^ 24 = n \<and> unat c mod 2 ^ 24 = m" by (rule div_mod_unique) (rule m24)
  then have size: "unat (drop_bit 24 c) = n" by (simp only: unat_u32_drop)
  have "unat c mod 2 ^ 23 = unat c mod 2 ^ 24 mod 2 ^ 23" by (simp add: mod_mod_cancel)
  then have word: "unat (c AND 0x007FFFFF) = m" using dm m by (simp only: unat_u32_low mod_less)
  have sign: "c AND 0x00800000 = 0"
  proof -
    have "\<not> bit (unat c) 23"
      unfolding c bit_add_shifted [OF m24] using nat_bit_bounds(1) [of m 23] m by auto
    then show ?thesis using u32_sign_bit [of c] by simp
  qed
  define w where "w = (if n \<le> 3 then drop_bit (8 * (3 - n)) (c AND 0x007FFFFF) else c AND 0x007FFFFF)"
  have w: "unat w = (if n \<le> 3 then m div 256 ^ (3 - n) else m)"
    using unat_u32_drop [of "8 * (3 - n)" "c AND 0x007FFFFF"] unfolding w_def word by (cases "n \<le> 3") (simp_all only: word pow256 if_True if_False)
  have res: "fst (SetCompact c) = (if n \<le> 3 then uint_of_u64 (ucast w) else uint_shl (uint_of_u64 (ucast w)) (8 * (n - 3)))"
    unfolding SetCompact_def Let_def size w_def [symmetric] by simp
  have val: "limbs_val (uint_of_u64 (ucast w)) = (if n \<le> 3 then m div 256 ^ (3 - n) else m)"
    unfolding uint_of_u64_val unat_ucast_u64 by (rule w)
  show "limbs_val (fst (SetCompact c)) = (if n \<le> 3 then m div 256 ^ (3 - n) else m * 256 ^ (n - 3) mod 2 ^ 256)"
    using val unfolding res by (simp add: uint_shl_val pow256)
  show "length (fst (SetCompact c)) = WIDTH" unfolding res by simp
  show "\<not> fst (snd (SetCompact c))" unfolding SetCompact_def Let_def sign by simp
  show "\<not> snd (snd (SetCompact c))" if "n \<le> 33" "n = 33 \<Longrightarrow> m < 2 ^ 16"
  proof -
    have "\<not> 0xFFFF < w" if "32 < n"
    proof -
      have "unat w < 2 ^ 16" using w that n \<open>n = 33 \<Longrightarrow> m < 2 ^ 16\<close> by simp
      then show ?thesis by (simp add: word_less_nat_alt)
    qed
    then show ?thesis using n unfolding SetCompact_def Let_def size w_def [symmetric] by auto
  qed
qed

lemma SetCompact_target:
  shows length_compact: "length (fst (SetCompact c)) = WIDTH"
    and compact_not_max: "limbs_val (fst (SetCompact c)) + 1 < 2 ^ 256"
proof -
  define n where "n = unat (drop_bit 24 c)"
  define w where "w = (if n \<le> 3 then drop_bit (8 * (3 - n)) (c AND 0x007FFFFF) else c AND 0x007FFFFF)"
  have t: "fst (SetCompact c) = (if n \<le> 3 then uint_of_u64 (ucast w) else uint_shl (uint_of_u64 (ucast w)) (8 * (n - 3)))"
    by (simp add: SetCompact_def Let_def w_def n_def)
  then show "length (fst (SetCompact c)) = WIDTH" by simp
  show "limbs_val (fst (SetCompact c)) + 1 < 2 ^ 256"
  proof (cases "n \<le> 3")
    case True
    then show ?thesis using t u32_less [of w] by (simp add: uint_of_u64_val unat_ucast_u64)
  next
    case False
    then have s: "8 * (n - 3) = Suc (8 * (n - 3) - 1)" by simp
    have "limbs_val (fst (SetCompact c)) = unat w * 2 ^ (8 * (n - 3)) mod 2 ^ 256"
      using False t by (simp add: uint_shl_val uint_of_u64_val unat_ucast_u64)
    also have "even \<dots>" by (subst s) (simp add: dvd_mod_iff)
    finally have "even (limbs_val (fst (SetCompact c)))" .
    moreover have "limbs_val (fst (SetCompact c)) < 2 ^ 256"
      using limbs_val_bound [of "fst (SetCompact c)"] t by (simp add: WIDTH_def split: if_splits)
    moreover have "even (2 ^ 256 :: nat)" by simp
    moreover have "even v \<Longrightarrow> v < N \<Longrightarrow> even N \<Longrightarrow> v + 1 < N" for v N :: nat by presburger
    ultimately show ?thesis by blast
  qed
qed

lemma SetCompact_GetCompact:
  assumes "length a = WIDTH"
  shows "\<exists>c. GetCompact a False = Inr c \<and> limbs_val (fst (SetCompact c)) = compact_floor (limbs_val a)
       \<and> snd (SetCompact c) = (False, False) \<and> length (fst (SetCompact c)) = WIDTH"
proof -
  obtain c where c: "GetCompact a False = Inr c" "unat c = packed_mantissa a + 2 ^ 24 * packed_size a"
    using GetCompact_packed [OF assms] by blast
  let ?n = "packed_size a" and ?m = "packed_mantissa a" and ?v = "limbs_val a"
  note dec = SetCompact_packed [OF c(2) packed_bounds(2) [OF assms] packed_bounds(1) [OF assms]]
  have v: "?v < 2 ^ 256" using limbs_val_bound [of a] assms by (simp add: WIDTH_def)
  have "?m < 2 ^ 16" if "?n = 33"
  proof -
    have "?v < 2 ^ 16 * 256 ^ 30" using v by (simp add: pow256)
    then have "?v div 256 ^ 30 < 2 ^ 16" by (simp add: div_less_iff_less_mult)
    then show ?thesis using packed_spec(3) [OF assms] that by simp
  qed
  then have flags: "snd (SetCompact c) = (False, False)"
    using dec(2,3) packed_bounds(1) [OF assms] by (metis prod.collapse)
  have "limbs_val (fst (SetCompact c)) = compact_floor ?v"
  proof (cases "?n \<le> 3")
    case True
    then show ?thesis using dec(1) packed_spec(1,2) [OF assms] by (simp add: compact_floor_def)
  next
    case False
    then have "?m * 256 ^ (?n - 3) = compact_floor ?v"
      using packed_spec(1,3) [OF assms] by (simp add: compact_floor_def)
    moreover have "compact_floor ?v < 2 ^ 256" using compact_floor_le v by (rule order.strict_trans1)
    ultimately show ?thesis using dec(1) False by simp
  qed
  with c(1) flags dec(4) show ?thesis by blast
qed

section \<open>Properties\<close>

text \<open>
  C29. \<^verbatim>\<open>arith_uint256::GetCompact\<close> never fails its assertions on a 256-bit number, and decoding
  its result with \<^verbatim>\<open>SetCompact\<close> sets neither the negative nor the overflow flag and gives the number
  rounded down to the largest multiple of the least power of 256 that leaves a 23-bit mantissa:
  the original when it has at most 23 bits, and never more than it.
\<close>

theorem compact_round_trip:
  assumes "length a = WIDTH"
  shows "\<exists>c. GetCompact a False = Inr c \<and> snd (SetCompact c) = (False, False) \<and>
    limbs_val (fst (SetCompact c)) = limbs_val a div 256 ^ compact_exp (limbs_val a) * 256 ^ compact_exp (limbs_val a) \<and>
    limbs_val (fst (SetCompact c)) \<le> limbs_val a \<and>
    (limbs_val a < 2 ^ 23 \<longrightarrow> limbs_val (fst (SetCompact c)) = limbs_val a)"
proof -
  obtain c where c: "GetCompact a False = Inr c" "snd (SetCompact c) = (False, False)"
    "limbs_val (fst (SetCompact c)) = compact_floor (limbs_val a)"
    using SetCompact_GetCompact [OF assms] by blast
  have "limbs_val a < 2 ^ 23 \<Longrightarrow> compact_floor (limbs_val a) = limbs_val a"
    by (simp add: compact_floor_def compact_exp.simps)
  then show ?thesis using c compact_floor_le by (auto simp: compact_floor_def)
qed

theorem compact_round_trip_witness:
  "\<exists>c. GetCompact (uint_of_u64 0x123456) False = Inr c \<and> limbs_val (fst (SetCompact c)) = 0x123456"
  using compact_round_trip [of "uint_of_u64 0x123456"] by (auto simp: uint_of_u64_val)

end
