(* ===== verification/Consensus_Params.thy ===== *)
theory Consensus_Params
  imports Prelude
begin

text \<open>
  The consensus parameters (\<^verbatim>\<open>struct Params\<close> of \<^verbatim>\<open>src/core/src/consensus/params.h\<close>) that the
  modelled rules read, and their values on the five networks
  (\<^verbatim>\<open>src/core/src/kernel/chainparams.cpp\<close>). A \<^verbatim>\<open>uint256\<close> is its 32 bytes, least significant
  first, so the hexadecimal literals of the source appear reversed.
\<close>

record Params =
  nSubsidyHalvingInterval :: int
  treasury_script_pub_key :: "u8 list"
  treasury_percent :: int
  BIP34Height :: int
  BIP65Height :: int
  BIP66Height :: int
  CSVHeight :: int
  SegwitHeight :: int
  powLimit :: "u8 list"
  fPowAllowMinDifficultyBlocks :: bool
  enforce_BIP94 :: bool
  fPowNoRetargeting :: bool
  nPowTargetSpacing :: int
  nPowTargetTimespan :: int

definition DifficultyAdjustmentInterval :: "Params \<Rightarrow> int" where
  "DifficultyAdjustmentInterval p = cdiv (nPowTargetTimespan p) (nPowTargetSpacing p)"

definition test_treasury_script :: "u8 list" where
  "test_treasury_script = [0x00, 0x14, 0xe3, 0xb6, 0x58, 0x14, 0x00, 0x2d, 0x9f, 0x16, 0x37, 0xfc,
     0x85, 0x2b, 0xe0, 0xa8, 0xda, 0x2f, 0x00, 0xcb, 0xd1, 0xec]"

definition CMainParams :: Params where
  "CMainParams = \<lparr>nSubsidyHalvingInterval = 1051200,
     treasury_script_pub_key = [0x00, 0x14, 0x09, 0x32, 0xfb, 0xc8, 0xb9, 0x04, 0x21, 0x09, 0x06,
       0x4f, 0x3c, 0x94, 0x4d, 0x75, 0xb9, 0x05, 0x3c, 0xe4, 0x93, 0x9e],
     treasury_percent = 10,
     BIP34Height = 1, BIP65Height = 1, BIP66Height = 1, CSVHeight = 1, SegwitHeight = 0,
     powLimit = replicate 29 0xff @ [0x3f, 0x00, 0x00],
     fPowAllowMinDifficultyBlocks = False, enforce_BIP94 = False, fPowNoRetargeting = False,
     nPowTargetSpacing = 2 * 60, nPowTargetTimespan = 60 * 60\<rparr>"

definition CTestNetParams :: Params where
  "CTestNetParams = \<lparr>nSubsidyHalvingInterval = 1051200,
     treasury_script_pub_key = test_treasury_script, treasury_percent = 10,
     BIP34Height = 1, BIP65Height = 1, BIP66Height = 1, CSVHeight = 1, SegwitHeight = 0,
     powLimit = replicate 32 0xff,
     fPowAllowMinDifficultyBlocks = False, enforce_BIP94 = False, fPowNoRetargeting = False,
     nPowTargetSpacing = 2 * 60, nPowTargetTimespan = 60 * 60\<rparr>"

definition CTestNet4Params :: Params where
  "CTestNet4Params = \<lparr>nSubsidyHalvingInterval = 1051200,
     treasury_script_pub_key = test_treasury_script, treasury_percent = 10,
     BIP34Height = 1, BIP65Height = 1, BIP66Height = 1, CSVHeight = 1, SegwitHeight = 1,
     powLimit = replicate 28 0xff @ [0x00, 0x00, 0x00, 0x00],
     fPowAllowMinDifficultyBlocks = True, enforce_BIP94 = True, fPowNoRetargeting = False,
     nPowTargetSpacing = 2 * 60, nPowTargetTimespan = 14 * 24 * 60 * 60\<rparr>"

definition SigNetParams :: Params where
  "SigNetParams = \<lparr>nSubsidyHalvingInterval = 1051200,
     treasury_script_pub_key = test_treasury_script, treasury_percent = 10,
     BIP34Height = 1, BIP65Height = 1, BIP66Height = 1, CSVHeight = 1, SegwitHeight = 1,
     powLimit = replicate 27 0x00 @ [0xae, 0x77, 0x03, 0x00, 0x00],
     fPowAllowMinDifficultyBlocks = False, enforce_BIP94 = False, fPowNoRetargeting = False,
     nPowTargetSpacing = 2 * 60, nPowTargetTimespan = 14 * 24 * 60 * 60\<rparr>"

text \<open>
  The regression network takes the timewarp rule from its options; the other overrides of
  the options (activation heights, deployments) do not reach the fields above except the
  heights, which keep their defaults here.
\<close>

definition CRegTestParams :: "bool \<Rightarrow> Params" where
  "CRegTestParams opts_enforce_bip94 = \<lparr>nSubsidyHalvingInterval = 150,
     treasury_script_pub_key = test_treasury_script, treasury_percent = 10,
     BIP34Height = 1, BIP65Height = 1, BIP66Height = 1, CSVHeight = 1, SegwitHeight = 0,
     powLimit = replicate 31 0xff @ [0x7f],
     fPowAllowMinDifficultyBlocks = True, enforce_BIP94 = opts_enforce_bip94, fPowNoRetargeting = True,
     nPowTargetSpacing = 2 * 60, nPowTargetTimespan = 24 * 60 * 60\<rparr>"

definition networks :: "Params list" where
  "networks = [CMainParams, CTestNetParams, CTestNet4Params, SigNetParams,
     CRegTestParams False, CRegTestParams True]"

text \<open>
  What the retargeting rules need of the parameters: a byte array of the width of a
  \<^verbatim>\<open>uint256\<close>, a spacing that divides into the timespan at least once, and a timespan whose
  quarter is positive and whose quadruple stays inside \<^verbatim>\<open>int64_t\<close>.
\<close>

definition pow_params_ok :: "Params \<Rightarrow> bool" where
  "pow_params_ok p \<longleftrightarrow> length (powLimit p) = 32 \<and> 4 \<le> nPowTargetTimespan p \<and>
     nPowTargetTimespan p * 4 < 2 ^ 63 \<and> 0 < nPowTargetSpacing p \<and>
     nPowTargetSpacing p \<le> nPowTargetTimespan p"

lemmas network_defs = CMainParams_def CTestNetParams_def CTestNet4Params_def SigNetParams_def
  CRegTestParams_def

lemma networks_ok: "p \<in> set networks \<Longrightarrow> pow_params_ok p"
  by (auto simp: networks_def pow_params_ok_def network_defs)

lemma networks_rules:
  "p \<in> set networks \<Longrightarrow> fPowAllowMinDifficultyBlocks p \<or> \<not> enforce_BIP94 p \<and> \<not> fPowNoRetargeting p"
  by (auto simp: networks_def network_defs)

lemma interval_pos: "pow_params_ok p \<Longrightarrow> 0 < DifficultyAdjustmentInterval p"
  by (simp add: pow_params_ok_def DifficultyAdjustmentInterval_def cdiv_nonneg pos_imp_zdiv_pos_iff)

end
