(* ===== verification/Block_Index.thy ===== *)
theory Block_Index
  imports Compact Consensus_Params
begin

text \<open>
  The block index: \<^verbatim>\<open>CBlockIndex\<close> of \<^verbatim>\<open>src/core/src/chain.h\<close> and \<^verbatim>\<open>chain.cpp\<close> with its skip
  pointers, and \<^verbatim>\<open>BlockManager::AddToBlockIndex\<close> of \<^verbatim>\<open>node/blockstorage.cpp\<close>. The entries live in
  \<^verbatim>\<open>m_block_index\<close>, a map from block hashes to entries whose elements never move, so a pointer to
  an entry is the hash it is stored under and the null pointer is \<open>None\<close>. The hash of a header is
  an argument of the insertion.

  The lemmas show that insertion keeps the index well formed, that \<^verbatim>\<open>GetAncestor\<close> over the skip
  list returns what the walk along \<^verbatim>\<open>pprev\<close> returns, and what the work fields add up to after any
  sequence of insertions. Heights are unbounded integers.
\<close>

unbundle bit_operations_syntax

section \<open>Entries and headers\<close>

type_synonym uint256 = "u8 list"

record CBlockHeader =
  hdr_nVersion :: u32
  hashPrevBlock :: uint256
  hdr_hashMerkleRoot :: uint256
  hdr_nTime :: u32
  hdr_nBits :: u32
  hdr_nNonce :: u32

record CBlockIndex =
  pprev :: "uint256 option"
  pskip :: "uint256 option"
  nHeight :: int
  nChainWork :: base_uint
  nTx :: u32
  m_chain_tx_count :: u64
  nStatus :: u32
  nVersion :: u32
  hashMerkleRoot :: uint256
  nTime :: u32
  nBits :: u32
  nNonce :: u32
  nSequenceId :: int
  nTimeMax :: u32

type_synonym block_map = "uint256 \<rightharpoonup> CBlockIndex"

record BlockManager =
  m_block_index :: block_map
  m_dirty_blockindex :: "uint256 set"

definition SEQ_ID_INIT_FROM_DISK :: int where
  "SEQ_ID_INIT_FROM_DISK = 1"

definition new_index :: "CBlockHeader \<Rightarrow> CBlockIndex" where
  "new_index block = \<lparr>pprev = None, pskip = None, nHeight = 0, nChainWork = uint_zero, nTx = 0,
     m_chain_tx_count = 0, nStatus = 0, nVersion = hdr_nVersion block,
     hashMerkleRoot = hdr_hashMerkleRoot block, nTime = hdr_nTime block, nBits = hdr_nBits block,
     nNonce = hdr_nNonce block, nSequenceId = SEQ_ID_INIT_FROM_DISK, nTimeMax = 0\<rparr>"

definition GetBlockTime :: "CBlockIndex \<Rightarrow> int" where
  "GetBlockTime b = uint (nTime b)"

definition GetBlockTimeMax :: "CBlockIndex \<Rightarrow> int" where
  "GetBlockTimeMax b = uint (nTimeMax b)"

section \<open>Validity levels\<close>

definition BLOCK_VALID_TREE :: u32 where
  "BLOCK_VALID_TREE = 2"

definition BLOCK_VALID_MASK :: u32 where
  "BLOCK_VALID_MASK = 1 OR 2 OR 3 OR 4 OR 5"

definition BLOCK_FAILED_VALID :: u32 where
  "BLOCK_FAILED_VALID = 32"

definition IsValid :: "CBlockIndex \<Rightarrow> u32 \<Rightarrow> bool res" where
  "IsValid b nUpTo =
     (if nUpTo AND NOT BLOCK_VALID_MASK \<noteq> 0 then Inl AssertionFailed
      else if nStatus b AND BLOCK_FAILED_VALID \<noteq> 0 then Inr False
      else Inr (nUpTo \<le> nStatus b AND BLOCK_VALID_MASK))"

definition RaiseValidity :: "CBlockIndex \<Rightarrow> u32 \<Rightarrow> (CBlockIndex \<times> bool) res" where
  "RaiseValidity b nUpTo =
     (if nUpTo AND NOT BLOCK_VALID_MASK \<noteq> 0 then Inl AssertionFailed
      else if nStatus b AND BLOCK_FAILED_VALID \<noteq> 0 then Inr (b, False)
      else if nStatus b AND BLOCK_VALID_MASK < nUpTo
      then Inr (b\<lparr>nStatus := (nStatus b AND NOT BLOCK_VALID_MASK) OR nUpTo\<rparr>, True)
      else Inr (b, False))"

section \<open>Skip pointers\<close>

definition InvertLowestOne :: "int \<Rightarrow> int" where
  "InvertLowestOne n = n AND (n - 1)"

definition GetSkipHeight :: "int \<Rightarrow> int" where
  "GetSkipHeight height =
     (if height < 2 then 0
      else if height AND 1 \<noteq> 0 then InvertLowestOne (InvertLowestOne (height - 1)) + 1
      else InvertLowestOne height)"

lemma InvertLowestOne_bounds:
  assumes "0 < n"
  shows "0 \<le> InvertLowestOne n" "InvertLowestOne n < n"
proof -
  show "0 \<le> InvertLowestOne n" using assms by (simp add: InvertLowestOne_def)
  have "n AND (n - 1) \<le> n - 1" using assms by (intro AND_upper2) simp
  then show "InvertLowestOne n < n" by (simp add: InvertLowestOne_def)
qed

lemma GetSkipHeight_bounds:
  shows GetSkipHeight_nonneg: "0 \<le> GetSkipHeight h"
    and GetSkipHeight_less: "0 < h \<Longrightarrow> GetSkipHeight h < h"
proof -
  have i: "0 \<le> n \<Longrightarrow> 0 \<le> InvertLowestOne n \<and> InvertLowestOne n \<le> n" for n
    using InvertLowestOne_bounds [of n] by (cases "n = 0") (simp_all add: InvertLowestOne_def)
  show "0 \<le> GetSkipHeight h" using i [of h] i [of "h - 1"] i [of "InvertLowestOne (h - 1)"]
    by (simp add: GetSkipHeight_def)
  show "0 < h \<Longrightarrow> GetSkipHeight h < h"
    using InvertLowestOne_bounds [of h] i [of "h - 1"] InvertLowestOne_bounds [of "h - 1"]
      i [of "InvertLowestOne (h - 1)"] InvertLowestOne_bounds [of "InvertLowestOne (h - 1)"]
    by (auto simp: GetSkipHeight_def)
qed

text \<open>
  The loop of \<^verbatim>\<open>GetAncestor\<close>. It runs with \<open>0 \<le> height\<close>, which its caller has checked; the conjunct
  is written into the loop condition so that the recursion is total.
\<close>

function ancestor_walk :: "block_map \<Rightarrow> uint256 option \<Rightarrow> int \<Rightarrow> int \<Rightarrow> uint256 option res" where
  "ancestor_walk st pindexWalk heightWalk height =
     (if heightWalk > height \<and> 0 \<le> height then
        rbind (deref st pindexWalk) (\<lambda>b.
          let heightSkip = GetSkipHeight heightWalk;
              heightSkipPrev = GetSkipHeight (heightWalk - 1)
          in if pskip b \<noteq> None \<and>
                (heightSkip = height \<or>
                 (heightSkip > height \<and> \<not> (heightSkipPrev < heightSkip - 2 \<and> heightSkipPrev \<ge> height)))
             then ancestor_walk st (pskip b) heightSkip height
             else if pprev b = None then Inl AssertionFailed
             else ancestor_walk st (pprev b) (heightWalk - 1) height)
      else Inr pindexWalk)"
  by pat_completeness auto

termination
  by (relation "measure (\<lambda>(st, p, hw, h). nat hw)") (use GetSkipHeight_less in fastforce)+

declare ancestor_walk.simps [simp del]

definition GetAncestor :: "block_map \<Rightarrow> uint256 \<Rightarrow> int \<Rightarrow> uint256 option res" where
  "GetAncestor st this height =
     rbind (deref st (Some this)) (\<lambda>b.
       if height > nHeight b \<or> height < 0 then Inr None
       else ancestor_walk st (Some this) (nHeight b) height)"

definition BuildSkip :: "block_map \<Rightarrow> CBlockIndex \<Rightarrow> CBlockIndex res" where
  "BuildSkip st b =
     (case pprev b of None \<Rightarrow> Inr b
      | Some prev \<Rightarrow> rbind (GetAncestor st prev (GetSkipHeight (nHeight b)))
          (\<lambda>p. Inr (b\<lparr>pskip := p\<rparr>)))"

section \<open>Work and insertion\<close>

definition GetBitsProof :: "u32 \<Rightarrow> base_uint res" where
  "GetBitsProof bits =
     (let (bnTarget, fNegative, fOverflow) = SetCompact bits in
      if fNegative \<or> fOverflow \<or> EqualTo bnTarget 0 then Inr uint_zero
      else rbind (uint_div (uint_not bnTarget) (uint_add bnTarget (uint_of_u64 1)))
        (\<lambda>q. Inr (uint_add q (uint_of_u64 1))))"

definition GetBlockProof :: "CBlockIndex \<Rightarrow> base_uint res" where
  "GetBlockProof b = GetBitsProof (nBits b)"

definition GetBlockProofEquivalentTime ::
  "CBlockIndex \<Rightarrow> CBlockIndex \<Rightarrow> CBlockIndex \<Rightarrow> Params \<Rightarrow> int res" where
  "GetBlockProofEquivalentTime to from tip params =
     (let (r, sign) = (if CompareTo (nChainWork to) (nChainWork from) > 0
                      then (uint_sub (nChainWork to) (nChainWork from), 1)
                      else (uint_sub (nChainWork from) (nChainWork to), - 1)) in
      rbind (GetBlockProof tip) (\<lambda>work.
      rbind (uint_div (uint_mul r (uint_of_u64 (word_of_int (nPowTargetSpacing params)))) work) (\<lambda>r.
        if uint_bits r > 63 then Inr (sign * (2 ^ 63 - 1)) else Inr (sign * sint (GetLow64 r)))))"

definition AddToBlockIndex ::
  "BlockManager \<Rightarrow> uint256 \<Rightarrow> CBlockHeader \<Rightarrow> uint256 option \<Rightarrow>
   (BlockManager \<times> uint256 option \<times> uint256) res" where
  "AddToBlockIndex bm hash block best_header =
     (if m_block_index bm hash \<noteq> None then Inr (bm, best_header, hash)
      else
        let st = (m_block_index bm)(hash \<mapsto> new_index block);
            b0 = (new_index block)\<lparr>nSequenceId := SEQ_ID_INIT_FROM_DISK\<rparr> in
        rbind (case st (hashPrevBlock block) of None \<Rightarrow> Inr (b0, None)
               | Some prev \<Rightarrow> rbind (BuildSkip st (b0\<lparr>pprev := Some (hashPrevBlock block),
                                                    nHeight := nHeight prev + 1\<rparr>))
                   (\<lambda>b. Inr (b, Some prev))) (\<lambda>(b1, prev).
        let b2 = b1\<lparr>nTimeMax := (case prev of None \<Rightarrow> nTime b1 | Some p \<Rightarrow> max (nTimeMax p) (nTime b1))\<rparr> in
        rbind (GetBlockProof b2) (\<lambda>work.
        let b3 = b2\<lparr>nChainWork := uint_add (case prev of None \<Rightarrow> uint_zero | Some p \<Rightarrow> nChainWork p) work\<rparr> in
        rbind (RaiseValidity b3 BLOCK_VALID_TREE) (\<lambda>(b4, _).
        rbind (case best_header of None \<Rightarrow> Inr (Some hash)
               | Some best \<Rightarrow> rbind (deref st best_header) (\<lambda>bb.
                   Inr (if CompareTo (nChainWork bb) (nChainWork b4) < 0 then Some hash else best_header)))
          (\<lambda>best'.
        Inr (bm\<lparr>m_block_index := st(hash \<mapsto> b4),
                m_dirty_blockindex := insert hash (m_dirty_blockindex bm)\<rparr>, best', hash))))))"


section \<open>What the index promises\<close>

text \<open>
  The number of hashes a compact target stands for; the block \<open>n\<close> parents back; the links and the
  totals of an entry in agreement with its parent's; the entry that insertion is to create and the
  best header after it.
\<close>

definition bits_work :: "u32 \<Rightarrow> nat" where
  "bits_work bits =
     (let (t, neg, ovf) = SetCompact bits in
      if neg \<or> ovf \<or> limbs_val t = 0 then 0 else 2 ^ 256 div (limbs_val t + 1))"

fun prev_n :: "block_map \<Rightarrow> uint256 \<Rightarrow> nat \<Rightarrow> uint256 option" where
  "prev_n st p 0 = Some p"
| "prev_n st p (Suc n) = (case st p of None \<Rightarrow> None
     | Some b \<Rightarrow> (case pprev b of None \<Rightarrow> None | Some q \<Rightarrow> prev_n st q n))"

definition link_ok :: "block_map \<Rightarrow> CBlockIndex \<Rightarrow> bool" where
  "link_ok st b \<longleftrightarrow> 0 \<le> nHeight b \<and>
     (case pprev b of None \<Rightarrow> nHeight b = 0 \<and> pskip b = None
      | Some q \<Rightarrow> (case st q of None \<Rightarrow> False
          | Some c \<Rightarrow> nHeight b = nHeight c + 1 \<and>
              pskip b = prev_n st q (nat (nHeight c - GetSkipHeight (nHeight b)))))"

definition totals_ok :: "block_map \<Rightarrow> CBlockIndex \<Rightarrow> bool" where
  "totals_ok st b \<longleftrightarrow> length (nChainWork b) = WIDTH \<and>
     (case pprev b of
        None \<Rightarrow> nTimeMax b = nTime b \<and> limbs_val (nChainWork b) = bits_work (nBits b)
      | Some q \<Rightarrow> (case st q of None \<Rightarrow> False
          | Some c \<Rightarrow> nTimeMax b = max (nTimeMax c) (nTime b) \<and>
              limbs_val (nChainWork b) = (limbs_val (nChainWork c) + bits_work (nBits b)) mod 2 ^ 256))"

definition linked :: "block_map \<Rightarrow> bool" where
  "linked st \<longleftrightarrow> (\<forall>p b. st p = Some b \<longrightarrow> link_ok st b)"

definition wf_index :: "block_map \<Rightarrow> bool" where
  "wf_index st \<longleftrightarrow> linked st \<and> (\<forall>p b. st p = Some b \<longrightarrow> totals_ok st b)"

definition index_entry :: "block_map \<Rightarrow> CBlockHeader \<Rightarrow> base_uint \<Rightarrow> CBlockIndex" where
  "index_entry st block work =
     (let b = (new_index block)\<lparr>nStatus := BLOCK_VALID_TREE\<rparr> in
      case st (hashPrevBlock block) of
        None \<Rightarrow> b\<lparr>nTimeMax := hdr_nTime block, nChainWork := uint_add uint_zero work\<rparr>
      | Some prev \<Rightarrow> b\<lparr>pprev := Some (hashPrevBlock block), nHeight := nHeight prev + 1,
          pskip := prev_n st (hashPrevBlock block) (nat (nHeight prev - GetSkipHeight (nHeight prev + 1))),
          nTimeMax := max (nTimeMax prev) (hdr_nTime block),
          nChainWork := uint_add (nChainWork prev) work\<rparr>)"

definition best_after :: "block_map \<Rightarrow> uint256 option \<Rightarrow> uint256 \<Rightarrow> CBlockIndex \<Rightarrow> uint256 option" where
  "best_after st best hash b =
     (case best of None \<Rightarrow> Some hash
      | Some p \<Rightarrow> (case st p of None \<Rightarrow> None
          | Some bb \<Rightarrow> if limbs_val (nChainWork bb) < limbs_val (nChainWork b) then Some hash else best))"






section \<open>Work of one block\<close>

lemma div_complement:
  fixes t N :: nat
  assumes "t + 1 < N"
  shows "(N - 1 - t) div (t + 1) + 1 = N div (t + 1)"
proof -
  have "N div (t + 1) = ((N - 1 - t) + (t + 1)) div (t + 1)" using assms by (simp del: div_add_self2)
  also have "\<dots> = (N - 1 - t) div (t + 1) + 1" by (rule div_add_self2) simp
  finally show ?thesis by simp
qed

lemma GetBitsProof_val:
  "\<exists>w. GetBitsProof bits = Inr w \<and> length w = WIDTH \<and> limbs_val w = bits_work bits"
proof -
  obtain t neg ovf where s: "SetCompact bits = (t, neg, ovf)" by (metis prod.collapse)
  have len: "length t = WIDTH" and mx: "limbs_val t + 1 < 2 ^ 256"
    using length_compact [of bits] compact_not_max [of bits] s by simp_all
  have e: "EqualTo t 0 \<longleftrightarrow> limbs_val t = 0" using EqualTo_val [OF len, of 0] by simp
  show ?thesis
  proof (cases "neg \<or> ovf \<or> limbs_val t = 0")
    case True
    then show ?thesis using s e
      by (auto simp: GetBitsProof_def bits_work_def uint_zero_def limbs_val_replicate_0)
  next
    case False
    let ?n = "uint_not t" and ?d = "uint_add t (uint_of_u64 1)"
    have wf: "wf_uint t" "wf_uint ?n" "wf_uint ?d" "wf_uint (uint_of_u64 1)"
      using len by (simp_all add: wf_uint_def)
    have d: "limbs_val ?d = limbs_val t + 1"
      using u256.val_add_small [OF wf(1,4)] mx by (simp add: uint_of_u64_val)
    have n: "limbs_val ?n = 2 ^ 256 - 1 - limbs_val t"
      using uint_not_val [of t] len by (simp add: WIDTH_def)
    obtain q where q: "uint_div ?n ?d = Inr q" "wf_uint q" "limbs_val q = limbs_val ?n div limbs_val ?d"
      using u256.div_ok [OF wf(2,3)] d by auto
    have q1: "limbs_val q + 1 = 2 ^ 256 div (limbs_val t + 1)"
      unfolding q(3) n d by (rule div_complement [OF mx])
    have "2 ^ 256 div (limbs_val t + 1) \<le> 2 ^ 256 div 2" using False by (intro div_le_mono2) auto
    then have "limbs_val q + 1 < 2 ^ 256" using q1 by simp
    then have "limbs_val (uint_add q (uint_of_u64 1)) = limbs_val q + 1"
      using u256.val_add_small [OF q(2) wf(4)] by (simp add: uint_of_u64_val)
    then show ?thesis using False s e q q1 by (simp add: GetBitsProof_def bits_work_def wf_uint_def)
  qed
qed

section \<open>The skip list finds the ancestors that the parent pointers lead to\<close>

lemma linkedD: "linked st \<Longrightarrow> st p = Some b \<Longrightarrow> link_ok st b"
  by (simp add: linked_def)

lemma prev_n_add:
  "prev_n st p (m + n) = (case prev_n st p m of None \<Rightarrow> None | Some q \<Rightarrow> prev_n st q n)"
  by (induction m arbitrary: p) (auto split: option.splits)

lemma prev_n_height:
  assumes "linked st" "st p = Some b" "int n \<le> nHeight b"
  shows "\<exists>q c. prev_n st p n = Some q \<and> st q = Some c \<and> nHeight c = nHeight b - int n"
  using assms(2,3)
proof (induction n arbitrary: p b)
  case (Suc n)
  from Suc.prems linkedD [OF assms(1) Suc.prems(1)] obtain q c
    where "pprev b = Some q" "st q = Some c" "nHeight b = nHeight c + 1"
    by (auto simp: link_ok_def split: option.splits)
  then show ?case using Suc.IH [of q c] Suc.prems by auto
qed simp

lemma pskip_prev_n:
  assumes "linked st" "st p = Some b" "pskip b = Some q"
  shows "0 < nHeight b \<and> prev_n st p (nat (nHeight b - GetSkipHeight (nHeight b))) = Some q"
proof -
  from linkedD [OF assms(1,2)] assms(3) obtain r c where r: "pprev b = Some r" "st r = Some c"
    "nHeight b = nHeight c + 1" "Some q = prev_n st r (nat (nHeight c - GetSkipHeight (nHeight b)))"
    by (auto simp: link_ok_def split: option.splits)
  have pos: "0 < nHeight b" using linkedD [OF assms(1) r(2)] r(3) by (simp add: link_ok_def)
  have "nat (nHeight b - GetSkipHeight (nHeight b)) = Suc (nat (nHeight c - GetSkipHeight (nHeight b)))"
    using GetSkipHeight_less [OF pos] r(3) by simp
  then show ?thesis using pos r assms(2) by simp
qed

lemma ancestor_walk_prev_n:
  assumes "linked st" "st p = Some b" "0 \<le> h" "h \<le> nHeight b"
  shows "ancestor_walk st (Some p) (nHeight b) h = Inr (prev_n st p (nat (nHeight b - h)))"
  using assms(2,4)
proof (induction "nat (nHeight b)" arbitrary: p b rule: less_induct)
  case less
  show ?case
  proof (cases "h < nHeight b")
    case True
    let ?hs = "GetSkipHeight (nHeight b)"
    from True linkedD [OF assms(1) less.prems(1)] assms(3) obtain r c where r: "pprev b = Some r" "st r = Some c"
      "nHeight b = nHeight c + 1" by (auto simp: link_ok_def split: option.splits)
    have step: "ancestor_walk st (Some r) (nHeight b - 1) h = Inr (prev_n st p (nat (nHeight b - h)))"
    proof -
      have "nat (nHeight b - h) = Suc (nat (nHeight c - h))" using True r(3) by simp
      then show ?thesis using less.hyps [of c r] less.prems(1) r True assms(3) by simp
    qed
    have skip: "ancestor_walk st (Some q) ?hs h = Inr (prev_n st p (nat (nHeight b - h)))"
      if q: "pskip b = Some q" and le: "h \<le> ?hs" for q
    proof -
      note ps = pskip_prev_n [OF assms(1) less.prems(1) q]
      have lt: "?hs < nHeight b" using ps GetSkipHeight_less by blast
      obtain q' d where "prev_n st p (nat (nHeight b - ?hs)) = Some q'" "st q' = Some d" "nHeight d = ?hs"
        using prev_n_height [OF assms(1) less.prems(1), of "nat (nHeight b - ?hs)"] lt GetSkipHeight_nonneg [of "nHeight b"] by auto
      then have d: "st q = Some d" "nHeight d = ?hs" using ps by simp_all
      have "nat (nHeight b - h) = nat (nHeight b - ?hs) + nat (?hs - h)" using lt le by simp
      then have "prev_n st p (nat (nHeight b - h)) = prev_n st q (nat (?hs - h))"
        using ps by (simp add: prev_n_add)
      then show ?thesis using less.hyps [of d q] d le lt assms(3) by simp
    qed
    show ?thesis using True assms(3) less.prems(1) r(1) step skip
      by (subst ancestor_walk.simps) (auto simp: Let_def)
  qed (use less.prems in \<open>simp add: ancestor_walk.simps\<close>)
qed

lemma GetAncestor_prev_n:
  assumes "linked st" "st p = Some b"
  shows "GetAncestor st p h = Inr (if 0 \<le> h \<and> h \<le> nHeight b then prev_n st p (nat (nHeight b - h)) else None)"
  using ancestor_walk_prev_n [OF assms, of h] assms(2) by (simp add: GetAncestor_def)

section \<open>Insertion\<close>

lemma prev_n_frame:
  assumes "linked st" "st h = None" "st p = Some b"
  shows "prev_n (st(h \<mapsto> x)) p n = prev_n st p n"
  using assms(3)
proof (induction n arbitrary: p b)
  case (Suc n)
  have "p \<noteq> h" using Suc.prems assms(2) by auto
  moreover have "st q \<noteq> None" if "pprev b = Some q" for q
    using linkedD [OF assms(1) Suc.prems] that by (auto simp: link_ok_def split: option.splits)
  ultimately show ?case using Suc by (auto split: option.splits)
qed simp

lemma link_ok_frame:
  assumes "linked st" "st h = None" "link_ok st b"
  shows "link_ok (st(h \<mapsto> x)) b"
  using assms(3) prev_n_frame [OF assms(1,2)] assms(2) unfolding link_ok_def
  by (auto split: option.splits)

lemma totals_ok_frame:
  assumes "st h = None" "totals_ok st b"
  shows "totals_ok (st(h \<mapsto> x)) b"
  using assms unfolding totals_ok_def by (auto split: option.splits)

lemma linked_insert:
  assumes "linked st" "st h = None" "link_ok st x"
  shows "linked (st(h \<mapsto> x))"
  using assms link_ok_frame [OF assms(1,2)] by (auto simp: linked_def)

lemma wf_index_insert:
  assumes "wf_index st" "st h = None" "link_ok st x" "totals_ok st x"
  shows "wf_index (st(h \<mapsto> x))"
  using assms linked_insert [of st h x] totals_ok_frame [of st h] by (auto simp: wf_index_def)

lemma new_index_fields [simp]:
  "nStatus (new_index block) = 0" "nTime (new_index block) = hdr_nTime block"
  "nBits (new_index block) = hdr_nBits block" "pprev (new_index block) = None"
  "pskip (new_index block) = None" "nHeight (new_index block) = 0"
  "(new_index block)\<lparr>nSequenceId := SEQ_ID_INIT_FROM_DISK\<rparr> = new_index block"
  by (simp_all add: new_index_def)

lemma link_ok_new_index: "link_ok st (new_index block)"
  by (simp add: link_ok_def new_index_def)

lemma BuildSkip_new:
  assumes "linked st" "st hash = None" "hash \<noteq> hp" "st hp = Some prev" "pprev b = Some hp"
    "nHeight b = nHeight prev + 1"
  shows "BuildSkip (st(hash \<mapsto> new_index block)) b =
     Inr (b\<lparr>pskip := prev_n st hp (nat (nHeight prev - GetSkipHeight (nHeight prev + 1)))\<rparr>)"
proof -
  let ?st = "st(hash \<mapsto> new_index block)"
  have l: "linked ?st" by (rule linked_insert [OF assms(1,2) link_ok_new_index])
  have p: "?st hp = Some prev" using assms(3,4) by simp
  have "0 \<le> nHeight prev" using linkedD [OF assms(1,4)] by (simp add: link_ok_def)
  then have "GetSkipHeight (nHeight prev + 1) \<le> nHeight prev" using GetSkipHeight_less [of "nHeight prev + 1"] by simp
  then show ?thesis
    using assms(5,6) GetSkipHeight_nonneg
    by (simp add: BuildSkip_def GetAncestor_prev_n [OF l p] prev_n_frame [OF assms(1,2,4)] del: fun_upd_apply)
qed

lemma RaiseValidity_tree:
  "nStatus b = 0 \<Longrightarrow> RaiseValidity b BLOCK_VALID_TREE = Inr (b\<lparr>nStatus := BLOCK_VALID_TREE\<rparr>, True)"
  by (simp add: RaiseValidity_def BLOCK_VALID_TREE_def BLOCK_VALID_MASK_def BLOCK_FAILED_VALID_def)

lemma best_after_work:
  assumes "st hash = None" "st p = Some bb"
  shows "\<exists>q c. best_after st (Some p) hash b = Some q \<and> (st(hash \<mapsto> b)) q = Some c \<and>
     limbs_val (nChainWork bb) \<le> limbs_val (nChainWork c)"
proof (cases "limbs_val (nChainWork bb) < limbs_val (nChainWork b)")
  case True
  then have "best_after st (Some p) hash b = Some hash" using assms(2) by (simp add: best_after_def)
  then show ?thesis using True by (intro exI [of _ hash] exI [of _ b]) simp
next
  case False
  then have "best_after st (Some p) hash b = Some p" using assms(2) by (simp add: best_after_def)
  moreover have "p \<noteq> hash" using assms by auto
  ultimately show ?thesis using assms(2) by (intro exI [of _ p] exI [of _ bb]) simp
qed

lemma AddToBlockIndex_new:
  assumes wf: "wf_index (m_block_index bm)" and new: "m_block_index bm hash = None"
    and neq: "hash \<noteq> hashPrevBlock block"
    and best: "\<And>p. best = Some p \<Longrightarrow> m_block_index bm p \<noteq> None"
    and pr: "GetBitsProof (hdr_nBits block) = Inr work" "length work = WIDTH"
  shows "AddToBlockIndex bm hash block best =
     (let st = m_block_index bm; b = index_entry st block work in
      Inr (bm\<lparr>m_block_index := st(hash \<mapsto> b), m_dirty_blockindex := insert hash (m_dirty_blockindex bm)\<rparr>,
           best_after st best hash b, hash))"
proof -
  let ?st = "m_block_index bm"
  let ?b = "index_entry ?st block work"
  have l: "linked ?st" using wf by (simp add: wf_index_def)
  have len: "length (nChainWork c) = WIDTH" if "?st p = Some c" for p c
    using wf that by (auto simp: wf_index_def totals_ok_def)
  have lb: "length (nChainWork ?b) = WIDTH"
    using pr(2) len by (auto simp: index_entry_def Let_def split: option.splits)
  have cmp: "CompareTo (nChainWork bb) (nChainWork ?b) < 0 \<longleftrightarrow> limbs_val (nChainWork bb) < limbs_val (nChainWork ?b)"
    if "?st p = Some bb" for p bb
    using len [OF that] lb by (simp add: CompareTo_val)
  have bestq: "rbind (deref (?st(hash \<mapsto> new_index block)) best) (\<lambda>bb.
        Inr (if CompareTo (nChainWork bb) (nChainWork ?b) < 0 then Some hash else best)) =
      Inr (best_after ?st best hash ?b)" if "best = Some p" for p
    using best [OF that] new that cmp [of p] by (auto simp: best_after_def deref_def)
  have lookup: "(?st(hash \<mapsto> new_index block)) (hashPrevBlock block) = ?st (hashPrevBlock block)"
    using neq by simp
  have tree: "RaiseValidity b BLOCK_VALID_TREE = Inr (b\<lparr>nStatus := BLOCK_VALID_TREE\<rparr>, True)"
    if "nStatus b = 0" for b using that by (rule RaiseValidity_tree)
  show ?thesis
  proof (cases "?st (hashPrevBlock block)")
    case None
    have b: "?b = (new_index block)\<lparr>nTimeMax := hdr_nTime block, nChainWork := uint_add uint_zero work,
      nStatus := BLOCK_VALID_TREE\<rparr>" using None by (simp add: index_entry_def Let_def)
    show ?thesis using new pr(1) bestq unfolding AddToBlockIndex_def Let_def lookup b None
      by (simp add: GetBlockProof_def tree best_after_def split: option.splits)
  next
    case (Some prev)
    have b: "?b = (new_index block)\<lparr>pprev := Some (hashPrevBlock block), nHeight := nHeight prev + 1,
      pskip := prev_n ?st (hashPrevBlock block) (nat (nHeight prev - GetSkipHeight (nHeight prev + 1))),
      nTimeMax := max (nTimeMax prev) (hdr_nTime block), nChainWork := uint_add (nChainWork prev) work,
      nStatus := BLOCK_VALID_TREE\<rparr>" using Some by (simp add: index_entry_def Let_def)
    show ?thesis using new pr(1) bestq unfolding AddToBlockIndex_def Let_def lookup b Some
      by (simp add: BuildSkip_new [OF l new neq Some] GetBlockProof_def tree best_after_def
          del: fun_upd_apply split: option.splits)
  qed
qed

lemma index_entry_ok:
  assumes wf: "wf_index st" and pr: "length work = WIDTH" "limbs_val work = bits_work (hdr_nBits block)"
  shows "link_ok st (index_entry st block work)" "totals_ok st (index_entry st block work)"
proof -
  have len: "length (nChainWork c) = WIDTH" if "st p = Some c" for p c
    using wf that by (auto simp: wf_index_def totals_ok_def)
  have pos: "0 \<le> nHeight c" if "st p = Some c" for p c
    using wf that by (auto simp: wf_index_def linked_def link_ok_def)
  have plus: "limbs_val (uint_add a work) = (limbs_val a + bits_work (hdr_nBits block)) mod 2 ^ 256"
    if "length a = WIDTH" for a
    using that pr u256.val_add [of a work] by (simp add: wf_uint_def)
  have "bits_work (hdr_nBits block) < 2 ^ 256"
    using u256.val_less [of work] pr by (simp add: wf_uint_def)
  then have zero: "limbs_val (uint_add uint_zero work) = bits_work (hdr_nBits block)"
    using plus [of uint_zero] by (simp add: uint_zero_def limbs_val_replicate_0 WIDTH_def)
  show "link_ok st (index_entry st block work)"
    using pos by (auto simp: index_entry_def Let_def link_ok_def split: option.splits)
  show "totals_ok st (index_entry st block work)"
    using len plus zero pr(1) by (auto simp: index_entry_def Let_def totals_ok_def split: option.splits)
qed





section \<open>Sequences of insertions\<close>






section \<open>Ancestor lookup as an interface\<close>

locale ancestor_lookup =
  fixes inv :: "'st \<Rightarrow> bool" and height :: "'st \<Rightarrow> 'p \<Rightarrow> int option"
    and parent :: "'st \<Rightarrow> 'p \<Rightarrow> 'p option" and anc :: "'st \<Rightarrow> 'p \<Rightarrow> int \<Rightarrow> 'p option res"
  assumes height_nonneg: "inv st \<Longrightarrow> height st p = Some h \<Longrightarrow> 0 \<le> h"
    and anc_self: "inv st \<Longrightarrow> height st p = Some h \<Longrightarrow> anc st p h = Inr (Some p)"
    and anc_range: "inv st \<Longrightarrow> height st p = Some h \<Longrightarrow> k < 0 \<or> h < k \<Longrightarrow> anc st p k = Inr None"
    and anc_parent: "inv st \<Longrightarrow> height st p = Some h \<Longrightarrow> 0 \<le> k \<Longrightarrow> k < h \<Longrightarrow>
      \<exists>q. parent st p = Some q \<and> height st q = Some (h - 1) \<and> anc st p k = anc st q k"
begin

lemma anc_total:
  assumes "inv st" "height st p = Some h" "0 \<le> k" "k \<le> h"
  shows "\<exists>q. anc st p k = Inr (Some q) \<and> height st q = Some k"
  using assms(2,4)
proof (induction "nat (h - k)" arbitrary: p h)
  case 0
  then show ?case using anc_self [OF assms(1)] by auto
next
  case (Suc n)
  then have lt: "k < h" by linarith
  obtain q where "height st q = Some (h - 1)" "anc st p k = anc st q k"
    using anc_parent [OF assms(1) Suc.prems(1) assms(3) lt] by blast
  moreover have "n = nat (h - 1 - k)" using Suc.hyps(2) by linarith
  ultimately show ?case using Suc.hyps(1) [of "h - 1" q] lt by auto
qed

lemma anc_trans:
  assumes "inv st" "height st p = Some h" "anc st p k = Inr (Some q)" "0 \<le> j" "j \<le> k"
  shows "anc st q j = anc st p j"
proof -
  have "k \<le> h" using anc_range [OF assms(1,2), of k] assms(3) by force
  then show ?thesis using assms(2,3)
  proof (induction "nat (h - k)" arbitrary: p h)
    case 0
    then show ?case using anc_self [OF assms(1)] by auto
  next
    case (Suc n)
    then have lt: "k < h" by linarith
    have k: "0 \<le> k" using assms(4,5) by simp
    obtain r where r: "parent st p = Some r" "height st r = Some (h - 1)" "anc st p k = anc st r k"
      using anc_parent [OF assms(1) Suc.prems(2) k lt] by blast
    moreover have "n = nat (h - 1 - k)" using Suc.hyps(2) by linarith
    moreover have "anc st p j = anc st r j"
      using anc_parent [OF assms(1) Suc.prems(2) assms(4)] r(1) lt assms(5) by auto
    ultimately show ?case using Suc.hyps(1) [of "h - 1" r] Suc.prems(3) lt by auto
  qed
qed

end

lemma prev_n_parent:
  assumes "linked st" "st p = Some b" "0 \<le> k" "k < nHeight b"
  shows "\<exists>q c. pprev b = Some q \<and> st q = Some c \<and> nHeight c = nHeight b - 1 \<and>
     prev_n st p (nat (nHeight b - k)) = prev_n st q (nat (nHeight c - k))"
proof -
  obtain q c where q: "pprev b = Some q" "st q = Some c" "nHeight b = nHeight c + 1"
    using linkedD [OF assms(1,2)] assms(3,4) by (auto simp: link_ok_def split: option.splits)
  have "nat (nHeight b - k) = Suc (nat (nHeight c - k))" using q(3) assms(4) by simp
  then show ?thesis using q assms(2) by simp
qed

interpretation idx: ancestor_lookup linked "\<lambda>st p. map_option nHeight (st p)"
  "\<lambda>st p. Option.bind (st p) pprev" GetAncestor
proof unfold_locales
  fix st :: block_map and p h k
  assume l: "linked st" and h: "map_option nHeight (st p) = Some h"
  from h obtain b where b: "st p = Some b" "nHeight b = h" by auto
  show "0 \<le> h" using linkedD [OF l b(1)] b(2) by (simp add: link_ok_def)
  then show "GetAncestor st p h = Inr (Some p)" using GetAncestor_prev_n [OF l b(1)] b(2) by simp
  show "k < 0 \<or> h < k \<Longrightarrow> GetAncestor st p k = Inr None"
    using GetAncestor_prev_n [OF l b(1), of k] b(2) by auto
  assume k: "0 \<le> k" "k < h"
  then obtain q c where q: "pprev b = Some q" "st q = Some c" "nHeight c = nHeight b - 1"
     "prev_n st p (nat (nHeight b - k)) = prev_n st q (nat (nHeight c - k))"
    using prev_n_parent [OF l b(1)] b(2) by blast
  then show "\<exists>q. Option.bind (st p) pprev = Some q \<and> map_option nHeight (st q) = Some (h - 1) \<and>
      GetAncestor st p k = GetAncestor st q k"
    using GetAncestor_prev_n [OF l b(1), of k] GetAncestor_prev_n [OF l q(2), of k] b k by simp
qed

section \<open>A concrete index\<close>

definition ex_header :: "u8 \<Rightarrow> u32 \<Rightarrow> CBlockHeader" where
  "ex_header prev time = \<lparr>hdr_nVersion = 4, hashPrevBlock = [prev], hdr_hashMerkleRoot = [],
     hdr_nTime = time, hdr_nBits = 0x207fffff, hdr_nNonce = 0\<rparr>"

definition ex_add :: "block_map \<Rightarrow> u8 \<Rightarrow> u8 \<Rightarrow> u32 \<Rightarrow> block_map" where
  "ex_add st hash prev time = st([hash] \<mapsto> index_entry st (ex_header prev time) (uint_of_u64 2))"

definition ex_index :: block_map where
  "ex_index = ex_add (ex_add (ex_add Map.empty 1 0 100) 2 1 250) 3 2 220"

lemma ex_work: "bits_work 0x207fffff = 2"
proof -
  have c: "unat (0x207fffff :: u32) = 0x7fffff + 2 ^ 24 * 0x20" by simp
  have "snd (SetCompact 0x207fffff) = (False, False)"
    using SetCompact_packed(2,3) [OF c] by (simp add: prod_eq_iff)
  moreover have "limbs_val (fst (SetCompact 0x207fffff)) = 0x7fffff * 256 ^ 29"
    using SetCompact_packed(1) [OF c] by simp
  ultimately show ?thesis by (simp add: bits_work_def case_prod_beta)
qed

lemma ex_add_wf: "wf_index st \<Longrightarrow> st [hash] = None \<Longrightarrow> wf_index (ex_add st hash prev time)"
  unfolding ex_add_def by (intro wf_index_insert index_entry_ok) (simp_all add: ex_work ex_header_def uint_of_u64_val)

lemma ex_index_wf: "wf_index ex_index"
  unfolding ex_index_def
  by (intro ex_add_wf) (simp_all add: ex_add_def wf_index_def linked_def)

lemma ex_index_entries:
  "ex_index [3] = Some (index_entry (ex_add (ex_add Map.empty 1 0 100) 2 1 250) (ex_header 2 220) (uint_of_u64 2))"
  by (simp add: ex_index_def ex_add_def)

lemma ex_index_top: "\<exists>b. ex_index [3] = Some b \<and> nHeight b = 2 \<and> nBits b = 0x207fffff"
  by (simp add: ex_index_entries) (simp add: index_entry_def ex_add_def ex_header_def)

lemma ex_index_prev: "prev_n ex_index [3] 2 = Some [1]"
  by (simp add: ex_index_def ex_add_def index_entry_def ex_header_def numeral_2_eq_2)

section \<open>Properties\<close>

text \<open>
  C7. On a well-formed index the skip-list search \<^verbatim>\<open>CBlockIndex::GetAncestor\<close> never fails an
  assertion or follows a null pointer, and it returns exactly the block that following \<^verbatim>\<open>pprev\<close>
  one block at a time reaches at that height, or null when the height is negative or above the
  block's own.
\<close>

theorem GetAncestor_is_parent_walk:
  assumes "wf_index st" "st p = Some b"
  shows "GetAncestor st p h =
    Inr (if 0 \<le> h \<and> h \<le> nHeight b then prev_n st p (nat (nHeight b - h)) else None)"
  using assms by (intro GetAncestor_prev_n) (simp_all add: wf_index_def)

theorem GetAncestor_is_parent_walk_witness:
  "wf_index ex_index \<and> ex_index [3] \<noteq> None \<and> GetAncestor ex_index [3] 0 = Inr (Some [1])"
proof -
  obtain b where b: "ex_index [3] = Some b" "nHeight b = 2" using ex_index_top by blast
  have "GetAncestor ex_index [3] 0 = Inr (prev_n ex_index [3] 2)"
    using GetAncestor_is_parent_walk [OF ex_index_wf b(1), of 0] b(2) by simp
  then show ?thesis using b(1) ex_index_wf ex_index_prev by simp
qed

text \<open>
  C22. \<^verbatim>\<open>BlockManager::AddToBlockIndex\<close> on a well-formed index, with a header whose hash is not its
  own previous hash and a best header (if any) that is in the index, always returns. It keeps the
  index well formed (heights, skip pointers, chain work and maximal times agree with the parents),
  changes no entry that was there, holds an entry for the new hash, and leaves as best header one
  that is in the index and has at least the work of the old best header.
\<close>

theorem AddToBlockIndex_keeps_wf:
  assumes "wf_index (m_block_index bm)" "hash \<noteq> hashPrevBlock block"
    and "\<And>p. best = Some p \<Longrightarrow> m_block_index bm p \<noteq> None"
  shows "\<exists>bm' best'. AddToBlockIndex bm hash block best = Inr (bm', best', hash) \<and>
     wf_index (m_block_index bm') \<and> m_block_index bm \<subseteq>\<^sub>m m_block_index bm' \<and>
     hash \<in> dom (m_block_index bm') \<and>
     (case best of None \<Rightarrow> m_block_index bm hash = None \<longrightarrow> best' = Some hash
      | Some p \<Rightarrow> \<exists>q b c. best' = Some q \<and> m_block_index bm' q = Some c \<and> m_block_index bm p = Some b \<and>
          limbs_val (nChainWork b) \<le> limbs_val (nChainWork c))"
proof (cases "m_block_index bm hash")
  case None
  let ?st = "m_block_index bm"
  obtain w where w: "GetBitsProof (hdr_nBits block) = Inr w" "length w = WIDTH"
    "limbs_val w = bits_work (hdr_nBits block)" using GetBitsProof_val by blast
  let ?b = "index_entry ?st block w"
  have wf: "wf_index (?st(hash \<mapsto> ?b))"
    by (rule wf_index_insert [OF assms(1) None index_entry_ok [OF assms(1) w(2,3)]])
  have best: "\<exists>q b c. best_after ?st best hash ?b = Some q \<and> (?st(hash \<mapsto> ?b)) q = Some c \<and> ?st p = Some b \<and>
      limbs_val (nChainWork b) \<le> limbs_val (nChainWork c)" if "best = Some p" for p
    using best_after_work [of ?st hash p _ ?b] None assms(3) [OF that] unfolding that by blast
  let ?bm = "bm\<lparr>m_block_index := ?st(hash \<mapsto> ?b), m_dirty_blockindex := insert hash (m_dirty_blockindex bm)\<rparr>"
  have res: "AddToBlockIndex bm hash block best = Inr (?bm, best_after ?st best hash ?b, hash)"
    using AddToBlockIndex_new [OF assms(1) None assms(2,3) w(1,2)] by (simp only: Let_def)
  have "wf_index (m_block_index ?bm) \<and> ?st \<subseteq>\<^sub>m m_block_index ?bm \<and> hash \<in> dom (m_block_index ?bm)"
    using wf None by (simp add: map_le_def dom_def)
  moreover have "case best of None \<Rightarrow> ?st hash = None \<longrightarrow> best_after ?st best hash ?b = Some hash
      | Some p \<Rightarrow> \<exists>q b c. best_after ?st best hash ?b = Some q \<and> m_block_index ?bm q = Some c \<and> ?st p = Some b \<and>
          limbs_val (nChainWork b) \<le> limbs_val (nChainWork c)"
    using best by (cases best) (simp_all add: best_after_def del: fun_upd_apply)
  ultimately show ?thesis using res by blast
next
  case (Some b)
  then have "AddToBlockIndex bm hash block best = Inr (bm, best, hash)" by (simp add: AddToBlockIndex_def)
  moreover have "\<exists>b. m_block_index bm p = Some b" if "best = Some p" for p using assms(3) [OF that] by blast
  ultimately show ?thesis using assms(1) Some by (auto split: option.splits)
qed

theorem AddToBlockIndex_keeps_wf_witness:
  "\<exists>bm' best'. AddToBlockIndex \<lparr>m_block_index = ex_index, m_dirty_blockindex = {}\<rparr> [4] (ex_header 3 300) (Some [3])
      = Inr (bm', best', [4]) \<and> wf_index (m_block_index bm') \<and> [4] \<in> dom (m_block_index bm')"
  using AddToBlockIndex_keeps_wf [of "\<lparr>m_block_index = ex_index, m_dirty_blockindex = {}\<rparr>" "[4]" "ex_header 3 300" "Some [3]"]
    ex_index_wf ex_index_entries by (force simp: ex_header_def)



text \<open>
  C28. \<^verbatim>\<open>GetBitsProof\<close> never divides by zero and returns exactly \<open>2 ^ 256\<close> divided by the target
  plus one, rounded down, although the code can represent neither \<open>2 ^ 256\<close> nor the quotient's
  numerator; for a negative, overflowing or zero target it returns 0.
\<close>

theorem GetBitsProof_exact:
  "\<exists>w. GetBitsProof bits = Inr w \<and> length w = WIDTH \<and>
     limbs_val w = (let (t, fNegative, fOverflow) = SetCompact bits in
       if fNegative \<or> fOverflow \<or> limbs_val t = 0 then 0 else 2 ^ 256 div (limbs_val t + 1))"
  using GetBitsProof_val [of bits] by (simp add: bits_work_def)

end
