(* ===== verification/Pow.thy ===== *)
theory Pow
  imports Block_Index
begin

text \<open>
  Proof of work (\<^verbatim>\<open>src/core/src/pow.cpp\<close>): the scaling of a target by the elapsed time, the
  required work of the next block, the check of difficulty transitions in headers
  synchronisation, and the check of a block's hash against its claimed target.

  The lemmas show that scaling computes the exact clamped quotient although the products do not
  fit 256 bits, that the required work always exists on a well-formed index and is bounded by a
  factor of four and by the network's limit, and that every required target is accepted by the
  transition check and by the target derivation.
\<close>

section \<open>Retargeting\<close>

definition ScaleTarget :: "base_uint \<Rightarrow> int \<Rightarrow> int \<Rightarrow> base_uint \<Rightarrow> base_uint res" where
  "ScaleTarget target elapsed interval limit =
     (if \<not> (elapsed > 0 \<and> interval > 0) then Inl AssertionFailed
      else
        let multiplier = uint_of_u64 (word_of_int elapsed);
            divisor = uint_of_u64 (word_of_int interval) in
        rbind (uint_div target divisor) (\<lambda>quotient.
        let remainder = uint_sub target (uint_mul quotient divisor) in
        rbind (uint_div limit multiplier) (\<lambda>bound.
        if CompareTo quotient bound > 0 then Inr limit
        else
          let base = uint_mul quotient multiplier in
          rbind (uint_div (uint_mul remainder multiplier) divisor) (\<lambda>tail.
          if CompareTo tail (uint_sub limit base) > 0 then Inr limit
          else Inr (uint_add base tail)))))"

definition clamp_timespan :: "Params \<Rightarrow> int \<Rightarrow> int" where
  "clamp_timespan params actual =
     (let a = (if actual < cdiv (nPowTargetTimespan params) 4 then cdiv (nPowTargetTimespan params) 4 else actual)
      in if a > nPowTargetTimespan params * 4 then nPowTargetTimespan params * 4 else a)"

definition CalculateNextWorkRequired :: "block_map \<Rightarrow> uint256 \<Rightarrow> int \<Rightarrow> Params \<Rightarrow> u32 res" where
  "CalculateNextWorkRequired st pindexLast nFirstBlockTime params =
     rbind (deref st (Some pindexLast)) (\<lambda>lst.
     if fPowNoRetargeting params then Inr (nBits lst)
     else
       let nActualTimespan = clamp_timespan params (GetBlockTime lst - nFirstBlockTime);
           bnPowLimit = UintToArith256 (powLimit params) in
       rbind (if enforce_BIP94 params
              then let nHeightFirst = nHeight lst - (DifficultyAdjustmentInterval params - 1) in
                   rbind (GetAncestor st pindexLast nHeightFirst) (\<lambda>pindexFirst.
                   rbind (deref st pindexFirst) (\<lambda>first. Inr (compact_target (nBits first))))
              else Inr (compact_target (nBits lst))) (\<lambda>bnNew.
       rbind (ScaleTarget bnNew nActualTimespan (nPowTargetTimespan params) bnPowLimit) (\<lambda>bnNew.
       GetCompact (if CompareTo bnNew bnPowLimit > 0 then bnPowLimit else bnNew) False)))"

text \<open>
  The loop that looks for the last block that does not use the minimum-difficulty exception;
  \<open>None\<close> is a loop that does not end.
\<close>

partial_function (option) last_regular_bits :: "block_map \<Rightarrow> int \<Rightarrow> u32 \<Rightarrow> uint256 option \<Rightarrow> u32 res option" where
  "last_regular_bits st interval nProofOfWorkLimit pindex =
     (case deref st pindex of Inl e \<Rightarrow> Some (Inl e)
      | Inr b \<Rightarrow>
          if pprev b \<noteq> None \<and> cmod (nHeight b) interval \<noteq> 0 \<and> nBits b = nProofOfWorkLimit
          then last_regular_bits st interval nProofOfWorkLimit (pprev b)
          else Some (Inr (nBits b)))"

definition GetNextWorkRequired ::
  "block_map \<Rightarrow> uint256 option \<Rightarrow> CBlockHeader \<Rightarrow> Params \<Rightarrow> u32 res option" where
  "GetNextWorkRequired st pindexLast pblock params =
     (case pindexLast of None \<Rightarrow> Some (Inl AssertionFailed)
      | Some p \<Rightarrow>
     (case GetCompact (UintToArith256 (powLimit params)) False of Inl e \<Rightarrow> Some (Inl e)
      | Inr nProofOfWorkLimit \<Rightarrow>
     (case deref st pindexLast of Inl e \<Rightarrow> Some (Inl e)
      | Inr lst \<Rightarrow>
        let interval = DifficultyAdjustmentInterval params in
        if interval = 0 then Some (Inl DivideByZero)
        else if cmod (nHeight lst + 1) interval \<noteq> 0 then
          (if fPowAllowMinDifficultyBlocks params then
             (if uint (hdr_nTime pblock) > GetBlockTime lst + nPowTargetSpacing params * 2
              then Some (Inr nProofOfWorkLimit)
              else last_regular_bits st interval nProofOfWorkLimit pindexLast)
           else Some (Inr (nBits lst)))
        else
          let nHeightFirst = nHeight lst - (interval - 1) in
          if \<not> nHeightFirst \<ge> 0 then Some (Inl AssertionFailed)
          else Some (rbind (GetAncestor st p nHeightFirst) (\<lambda>pindexFirst.
            if pindexFirst = None then Inl AssertionFailed
            else rbind (deref st pindexFirst) (\<lambda>first.
              CalculateNextWorkRequired st p (GetBlockTime first) params))))))"

section \<open>Transitions and hashes\<close>

definition PermittedDifficultyTransition :: "Params \<Rightarrow> int \<Rightarrow> u32 \<Rightarrow> u32 \<Rightarrow> bool res" where
  "PermittedDifficultyTransition params height old_nbits new_nbits =
     (if fPowAllowMinDifficultyBlocks params then Inr True
      else if DifficultyAdjustmentInterval params = 0 then Inl DivideByZero
      else if cmod height (DifficultyAdjustmentInterval params) = 0 then
        let smallest_timespan = cdiv (nPowTargetTimespan params) 4;
            largest_timespan = nPowTargetTimespan params * 4;
            pow_limit = UintToArith256 (powLimit params);
            observed_new_target = compact_target new_nbits in
        rbind (ScaleTarget (compact_target old_nbits) largest_timespan (nPowTargetTimespan params) pow_limit) (\<lambda>t.
        let largest_difficulty_target = (if CompareTo t pow_limit > 0 then pow_limit else t) in
        rbind (GetCompact largest_difficulty_target False) (\<lambda>c.
        let maximum_new_target = compact_target c in
        if CompareTo maximum_new_target observed_new_target < 0 then Inr False
        else
          rbind (ScaleTarget (compact_target old_nbits) smallest_timespan (nPowTargetTimespan params) pow_limit) (\<lambda>t.
          let smallest_difficulty_target = (if CompareTo t pow_limit > 0 then pow_limit else t) in
          rbind (GetCompact smallest_difficulty_target False) (\<lambda>c.
          let minimum_new_target = compact_target c in
          Inr (\<not> CompareTo minimum_new_target observed_new_target > 0)))))
      else Inr (old_nbits = new_nbits))"

definition DeriveTarget :: "u32 \<Rightarrow> uint256 \<Rightarrow> base_uint option" where
  "DeriveTarget bits pow_limit =
     (let (bnTarget, fNegative, fOverflow) = SetCompact bits in
      if fNegative \<or> EqualTo bnTarget 0 \<or> fOverflow \<or> CompareTo bnTarget (UintToArith256 pow_limit) > 0
      then None else Some bnTarget)"

definition CheckProofOfWorkImpl :: "uint256 \<Rightarrow> u32 \<Rightarrow> Params \<Rightarrow> bool" where
  "CheckProofOfWorkImpl hash bits params =
     (case DeriveTarget bits (powLimit params) of None \<Rightarrow> False
      | Some bnTarget \<Rightarrow> \<not> CompareTo (UintToArith256 hash) bnTarget > 0)"

text \<open>The fuzzing switch is a property of the build, so it is an argument.\<close>

definition CheckProofOfWork :: "bool \<Rightarrow> uint256 \<Rightarrow> u32 \<Rightarrow> Params \<Rightarrow> bool" where
  "CheckProofOfWork EnableFuzzDeterminism hash bits params =
     (if EnableFuzzDeterminism then hash ! 31 AND 0x80 = 0 else CheckProofOfWorkImpl hash bits params)"

section \<open>The target they compute, over the unbounded integers\<close>

definition limit_val :: "Params \<Rightarrow> nat" where
  "limit_val params = limbs_val (UintToArith256 (powLimit params))"

definition scaled_target :: "Params \<Rightarrow> nat \<Rightarrow> int \<Rightarrow> nat" where
  "scaled_target params t e = min (limit_val params) (t * nat e div nat (nPowTargetTimespan params))"

section \<open>Scaling is exact\<close>

lemma u64_of_int:
  assumes "0 < e" "e < 2 ^ 63"
  shows "limbs_val (uint_of_u64 (word_of_int e)) = nat e" "wf_uint (uint_of_u64 (word_of_int e))"
proof -
  have "uint (word_of_int e :: u64) = e" using assms by (simp add: uint_word_of_int)
  then show "limbs_val (uint_of_u64 (word_of_int e)) = nat e" by (simp add: uint_of_u64_val flip: nat_uint_eq)
qed (simp add: wf_uint_def)

lemma scale_split:
  fixes t m d :: nat
  assumes "0 < d"
  shows "t * m div d = t div d * m + t mod d * m div d"
proof -
  have "t * m = (t div d * m) * d + t mod d * m"
    by (metis add_mult_distrib div_mult_mod_eq mult.assoc mult.commute)
  then show ?thesis using assms by simp
qed

lemma ScaleTarget_val:
  assumes wf: "wf_uint t" "wf_uint l" and e: "0 < e" "e < 2 ^ 63" and i: "0 < i" "i < 2 ^ 63"
  shows "\<exists>r. ScaleTarget t e i l = Inr r \<and> wf_uint r \<and>
     limbs_val r = min (limbs_val l) (limbs_val t * nat e div nat i)"
proof -
  let ?m = "uint_of_u64 (word_of_int e)" and ?d = "uint_of_u64 (word_of_int i)"
  note m = u64_of_int [OF e] and d = u64_of_int [OF i]
  have m0: "limbs_val ?m \<noteq> 0" and d0: "limbs_val ?d \<noteq> 0" using m d e i by simp_all
  obtain q where q: "uint_div t ?d = Inr q" "wf_uint q" "limbs_val q = limbs_val t div limbs_val ?d"
    using u256.div_ok [OF wf(1) d(2) d0] by blast
  obtain b where b: "uint_div l ?m = Inr b" "wf_uint b" "limbs_val b = limbs_val l div limbs_val ?m"
    using u256.div_ok [OF wf(2) m(2) m0] by blast
  let ?r = "uint_sub t (uint_mul q ?d)"
  have r: "wf_uint ?r" "limbs_val ?r = limbs_val t mod limbs_val ?d"
    using u256.remainder [OF wf(1) d(2) q(2,3) d0] by simp_all
  have split: "limbs_val t * nat e div nat i = limbs_val q * nat e + limbs_val ?r * nat e div nat i"
    using scale_split [of "nat i" "limbs_val t" "nat e"] i q(3) r(2) d(1) by simp
  show ?thesis
  proof (cases "CompareTo q b > 0")
    case True
    then have "limbs_val l div nat e < limbs_val q" using u256.cmp_gt [OF q(2) b(2)] b(3) m(1) by simp
    then have "limbs_val l < limbs_val q * nat e" using e by (simp add: div_less_iff_less_mult)
    then show ?thesis using True q b e i split wf by (simp add: ScaleTarget_def)
  next
    case False
    then have "limbs_val q \<le> limbs_val l div nat e" using u256.cmp_gt [OF q(2) b(2)] b(3) m(1) by simp
    then have le: "limbs_val q * nat e \<le> limbs_val l" using e by (simp add: less_eq_div_iff_mult_less_eq)
    let ?b = "uint_mul q ?m" and ?p = "uint_mul ?r ?m"
    have l: "limbs_val l < 2 ^ 256" by (rule u256.val_less [OF wf(2)])
    have base: "wf_uint ?b" "limbs_val ?b = limbs_val q * nat e"
      using u256.wf_ops [OF q(2) m(2)] u256.val_mul_small [OF q(2) m(2)] le l m(1) by simp_all
    have "limbs_val ?r < 2 ^ 63" using r(2) d(1) i by (simp add: mod_less_divisor less_le_trans [OF mod_less_divisor])
    then have "limbs_val ?r * nat e < 2 ^ 63 * 2 ^ 63" using e by (intro mult_strict_mono) simp_all
    then have p: "wf_uint ?p" "limbs_val ?p = limbs_val ?r * nat e"
      using u256.wf_ops [OF r(1) m(2)] u256.val_mul_small [OF r(1) m(2)] m(1) by simp_all
    obtain x where x: "uint_div ?p ?d = Inr x" "wf_uint x" "limbs_val x = limbs_val ?r * nat e div nat i"
      using u256.div_ok [OF p(1) d(2) d0] p(2) d(1) by auto
    have s: "wf_uint (uint_sub l ?b)" "limbs_val (uint_sub l ?b) = limbs_val l - limbs_val q * nat e"
      using u256.wf_ops [OF wf(2) base(1)] u256.val_sub [OF wf(2) base(1)] base(2) le by simp_all
    have cmp: "CompareTo x (uint_sub l ?b) > 0 \<longleftrightarrow> limbs_val l < limbs_val t * nat e div nat i"
      unfolding u256.cmp_gt [OF x(2) s(1)] s(2) x(3) split using le by (simp only: less_diff_conv2 add.commute)
    have sum: "limbs_val (uint_add ?b x) = limbs_val t * nat e div nat i"
      if "limbs_val t * nat e div nat i \<le> limbs_val l"
      using u256.val_add_small [OF base(1) x(2)] base(2) x(3) split that l by simp
    show ?thesis using False q b x e i cmp sum wf u256.wf_ops [OF base(1) x(2)] by (auto simp: ScaleTarget_def min_def)
  qed
qed

section \<open>The required target\<close>

lemma wf_limit [simp]: "wf_uint (UintToArith256 a)"
  by (simp add: wf_uint_def UintToArith256_def)

lemma wf_compact_target [simp]: "wf_uint (compact_target c)"
  using length_compact [of c] by (simp add: wf_uint_def compact_target_def)

lemma scaled_target_mono: "e \<le> e' \<Longrightarrow> scaled_target params t e \<le> scaled_target params t e'"
  unfolding scaled_target_def by (intro min.mono div_le_mono mult_le_mono2 nat_mono) simp_all

lemma clamp_bounds:
  assumes "pow_params_ok params"
  shows "cdiv (nPowTargetTimespan params) 4 \<le> clamp_timespan params a"
    and "clamp_timespan params a \<le> nPowTargetTimespan params * 4"
  using assms by (auto simp: clamp_timespan_def pow_params_ok_def cdiv_nonneg Let_def)

lemma timespan_bounds:
  assumes "pow_params_ok params" "cdiv (nPowTargetTimespan params) 4 \<le> e" "e \<le> nPowTargetTimespan params * 4"
  shows "0 < e \<and> e < 2 ^ 63 \<and> 0 < nPowTargetTimespan params \<and> nPowTargetTimespan params < 2 ^ 63"
  using assms by (auto simp: pow_params_ok_def cdiv_nonneg)

text \<open>Scaling, capping at the limit and encoding, as both retargeting and the transition check do.\<close>

lemma scale_and_encode:
  assumes ok: "pow_params_ok params"
    and e: "cdiv (nPowTargetTimespan params) 4 \<le> e" "e \<le> nPowTargetTimespan params * 4"
  shows "\<exists>r c. ScaleTarget (compact_target b) e (nPowTargetTimespan params) (UintToArith256 (powLimit params)) = Inr r \<and>
     GetCompact (if CompareTo r (UintToArith256 (powLimit params)) > 0 then UintToArith256 (powLimit params) else r)
       False = Inr c \<and> snd (SetCompact c) = (False, False) \<and>
     limbs_val (compact_target c) = compact_floor (scaled_target params (limbs_val (compact_target b)) e)"
proof -
  let ?L = "UintToArith256 (powLimit params)"
  obtain r where r: "ScaleTarget (compact_target b) e (nPowTargetTimespan params) ?L = Inr r" "wf_uint r"
    "limbs_val r = scaled_target params (limbs_val (compact_target b)) e"
    using ScaleTarget_val [of "compact_target b" ?L e "nPowTargetTimespan params"] timespan_bounds [OF ok e]
    by (auto simp: scaled_target_def limit_val_def)
  have "\<not> CompareTo r ?L > 0" using u256.cmp_gt [OF r(2) wf_limit] r(3) by (simp add: scaled_target_def limit_val_def)
  moreover obtain c where "GetCompact r False = Inr c" "limbs_val (fst (SetCompact c)) = compact_floor (limbs_val r)"
    "snd (SetCompact c) = (False, False)"
    using SetCompact_GetCompact [of r] r(2) by (auto simp: wf_uint_def)
  ultimately show ?thesis using r by (simp add: compact_target_def)
qed

lemma CalculateNextWorkRequired_val:
  assumes ok: "pow_params_ok params" and nr: "\<not> fPowNoRetargeting params"
    and st: "linked st" "st p = Some b"
    and old: "if enforce_BIP94 params
              then \<exists>q f. GetAncestor st p (nHeight b - (DifficultyAdjustmentInterval params - 1)) = Inr (Some q) \<and>
                st q = Some f \<and> old = nBits f
              else old = nBits b"
  shows "\<exists>c. CalculateNextWorkRequired st p t0 params = Inr c \<and> snd (SetCompact c) = (False, False) \<and>
     limbs_val (compact_target c) = compact_floor
       (scaled_target params (limbs_val (compact_target old)) (clamp_timespan params (GetBlockTime b - t0)))"
proof -
  obtain r c where rc: "ScaleTarget (compact_target old) (clamp_timespan params (GetBlockTime b - t0))
      (nPowTargetTimespan params) (UintToArith256 (powLimit params)) = Inr r"
     "GetCompact (if CompareTo r (UintToArith256 (powLimit params)) > 0 then UintToArith256 (powLimit params) else r)
       False = Inr c" "snd (SetCompact c) = (False, False)"
     "limbs_val (compact_target c) = compact_floor
       (scaled_target params (limbs_val (compact_target old)) (clamp_timespan params (GetBlockTime b - t0)))"
    using scale_and_encode [OF ok clamp_bounds [OF ok]] by blast
  have "CalculateNextWorkRequired st p t0 params = Inr c"
    using st nr old rc(1,2) by (auto simp: CalculateNextWorkRequired_def Let_def split: if_splits)
  with rc show ?thesis by blast
qed

lemma PermittedDifficultyTransition_val:
  assumes ok: "pow_params_ok params" and am: "\<not> fPowAllowMinDifficultyBlocks params"
    and h: "cmod height (DifficultyAdjustmentInterval params) = 0"
  shows "PermittedDifficultyTransition params height old new = Inr
    (limbs_val (compact_target new) \<le>
       compact_floor (scaled_target params (limbs_val (compact_target old)) (nPowTargetTimespan params * 4)) \<and>
     compact_floor (scaled_target params (limbs_val (compact_target old)) (cdiv (nPowTargetTimespan params) 4))
       \<le> limbs_val (compact_target new))"
proof -
  have q: "cdiv (nPowTargetTimespan params) 4 \<le> nPowTargetTimespan params * 4"
    using clamp_bounds [OF ok] by (rule order.trans)
  obtain r c where hi: "ScaleTarget (compact_target old) (nPowTargetTimespan params * 4) (nPowTargetTimespan params)
      (UintToArith256 (powLimit params)) = Inr r"
     "GetCompact (if CompareTo r (UintToArith256 (powLimit params)) > 0 then UintToArith256 (powLimit params) else r)
       False = Inr c"
     "limbs_val (compact_target c) = compact_floor
       (scaled_target params (limbs_val (compact_target old)) (nPowTargetTimespan params * 4))"
    using scale_and_encode [OF ok q order.refl] by blast
  obtain r' c' where lo: "ScaleTarget (compact_target old) (cdiv (nPowTargetTimespan params) 4) (nPowTargetTimespan params)
      (UintToArith256 (powLimit params)) = Inr r'"
     "GetCompact (if CompareTo r' (UintToArith256 (powLimit params)) > 0 then UintToArith256 (powLimit params) else r')
       False = Inr c'"
     "limbs_val (compact_target c') = compact_floor
       (scaled_target params (limbs_val (compact_target old)) (cdiv (nPowTargetTimespan params) 4))"
    using scale_and_encode [OF ok order.refl q] by blast
  have len: "length (compact_target x) = length (compact_target y)" for x y
    by (simp add: compact_target_def length_compact)
  have lt: "CompareTo (compact_target x) (compact_target y) < 0 \<longleftrightarrow>
      limbs_val (compact_target x) < limbs_val (compact_target y)" for x y
    by (simp add: CompareTo_val [OF len])
  have le: "CompareTo (compact_target x) (compact_target y) \<le> 0 \<longleftrightarrow>
      limbs_val (compact_target x) \<le> limbs_val (compact_target y)" for x y
    by (simp add: CompareTo_val [OF len])
  show ?thesis using am h interval_pos [OF ok] hi(1,2) lo(1,2)
    by (simp add: PermittedDifficultyTransition_def Let_def lt le hi(3) lo(3) not_less)
qed

lemma last_regular_bits_total:
  assumes "linked st" "st p = Some b"
  shows "\<exists>q c. last_regular_bits st interval lim (Some p) = Some (Inr (nBits c)) \<and> st q = Some c \<and>
     (nBits c \<noteq> lim \<or> cmod (nHeight c) interval = 0 \<or> pprev c = None)"
  using assms(2)
proof (induction "nat (nHeight b)" arbitrary: p b rule: less_induct)
  case less
  show ?case
  proof (cases "pprev b \<noteq> None \<and> cmod (nHeight b) interval \<noteq> 0 \<and> nBits b = lim")
    case True
    then obtain q c where q: "pprev b = Some q" "st q = Some c" "nHeight b = nHeight c + 1"
      using linkedD [OF assms(1) less.prems] by (auto simp: link_ok_def split: option.splits)
    have "0 \<le> nHeight c" using linkedD [OF assms(1) q(2)] by (simp add: link_ok_def)
    then show ?thesis using less.hyps [OF _ q(2)] q True less.prems
      by (subst last_regular_bits.simps) simp
  next
    case False
    then show ?thesis using less.prems by (subst last_regular_bits.simps) auto
  qed
qed

lemma limit_encodes: "\<exists>c. GetCompact (UintToArith256 a) False = Inr c"
  using SetCompact_GetCompact [of "UintToArith256 a"] wf_limit by (auto simp: wf_uint_def)

lemma first_of_interval:
  assumes "linked st" "st p = Some b" "0 < I" "cmod (nHeight b + 1) I = 0"
  shows "0 \<le> nHeight b - (I - 1) \<and> (\<exists>q f. GetAncestor st p (nHeight b - (I - 1)) = Inr (Some q) \<and> st q = Some f)"
proof -
  have h: "0 \<le> nHeight b" using linkedD [OF assms(1,2)] by (simp add: link_ok_def)
  then have "(nHeight b + 1) mod I = 0" using assms(3,4) by (simp add: cmod_nonneg)
  then have "I \<le> nHeight b + 1" using h by (intro zdvd_imp_le) auto
  then have "0 \<le> nHeight b - (I - 1)" "nHeight b - (I - 1) \<le> nHeight b" using assms(3) by simp_all
  then show ?thesis using idx.anc_total [OF assms(1), of p "nHeight b"] assms(2) by fastforce
qed

lemma GetNextWorkRequired_retarget:
  assumes "pow_params_ok params" "linked st" "st p = Some b"
    and "cmod (nHeight b + 1) (DifficultyAdjustmentInterval params) = 0"
  obtains q f where "GetAncestor st p (nHeight b - (DifficultyAdjustmentInterval params - 1)) = Inr (Some q)"
    "st q = Some f"
    "GetNextWorkRequired st (Some p) hdr params = Some (CalculateNextWorkRequired st p (GetBlockTime f) params)"
proof -
  obtain q f where q: "GetAncestor st p (nHeight b - (DifficultyAdjustmentInterval params - 1)) = Inr (Some q)"
    "st q = Some f" and h: "0 \<le> nHeight b - (DifficultyAdjustmentInterval params - 1)"
    using first_of_interval [OF assms(2,3) interval_pos [OF assms(1)] assms(4)] by blast
  obtain c where "GetCompact (UintToArith256 (powLimit params)) False = Inr c" using limit_encodes by blast
  then have "GetNextWorkRequired st (Some p) hdr params = Some (CalculateNextWorkRequired st p (GetBlockTime f) params)"
    using q h assms(3,4) interval_pos [OF assms(1)] by (simp add: GetNextWorkRequired_def Let_def)
  then show ?thesis by (rule that [OF q])
qed

lemma GetNextWorkRequired_between:
  assumes "pow_params_ok params" "linked st" "st p = Some b"
    and "cmod (nHeight b + 1) (DifficultyAdjustmentInterval params) \<noteq> 0"
  shows "\<exists>c. GetNextWorkRequired st (Some p) hdr params = Some (Inr c) \<and>
    (\<not> fPowAllowMinDifficultyBlocks params \<longrightarrow> c = nBits b)"
proof -
  obtain l where "GetCompact (UintToArith256 (powLimit params)) False = Inr l" using limit_encodes by blast
  then show ?thesis using assms(3,4) interval_pos [OF assms(1)] last_regular_bits_total [OF assms(2,3)]
    by (auto simp: GetNextWorkRequired_def Let_def)
qed

lemma next_work_exists:
  assumes "pow_params_ok params" "linked st" "st p = Some b"
  shows "\<exists>c. GetNextWorkRequired st (Some p) hdr params = Some (Inr c)"
proof (cases "cmod (nHeight b + 1) (DifficultyAdjustmentInterval params) = 0")
  case False
  then show ?thesis using GetNextWorkRequired_between [OF assms] by blast
next
  case True
  obtain q f where q: "GetAncestor st p (nHeight b - (DifficultyAdjustmentInterval params - 1)) = Inr (Some q)"
    "st q = Some f"
    "GetNextWorkRequired st (Some p) hdr params = Some (CalculateNextWorkRequired st p (GetBlockTime f) params)"
    by (rule GetNextWorkRequired_retarget [OF assms True])
  show ?thesis
  proof (cases "fPowNoRetargeting params")
    case True
    then show ?thesis using q(3) assms(3) by (simp add: CalculateNextWorkRequired_def)
  next
    case False
    have "\<exists>c. CalculateNextWorkRequired st p (GetBlockTime f) params = Inr c"
      using CalculateNextWorkRequired_val [OF assms(1) False assms(2,3), of "nBits f"]
        CalculateNextWorkRequired_val [OF assms(1) False assms(2,3), of "nBits b"] q(1,2)
      by (cases "enforce_BIP94 params") fastforce+
    then show ?thesis using q(3) by auto
  qed
qed

lemma DeriveTarget_iff:
  "DeriveTarget bits lim = Some t \<longleftrightarrow> t = compact_target bits \<and> snd (SetCompact bits) = (False, False) \<and>
     0 < limbs_val t \<and> limbs_val t \<le> limbs_val (UintToArith256 lim)"
proof -
  obtain u n v where s: "SetCompact bits = (u, n, v)" by (metis prod.collapse)
  then have u: "u = compact_target bits" by (simp add: compact_target_def)
  have "EqualTo u 0 \<longleftrightarrow> limbs_val u = 0"
    using EqualTo_val [of u 0] wf_compact_target [of bits] u by (simp add: wf_uint_def)
  moreover have "CompareTo u (UintToArith256 lim) > 0 \<longleftrightarrow> limbs_val (UintToArith256 lim) < limbs_val u"
    using u256.cmp_gt [OF wf_compact_target wf_limit] u by simp
  ultimately show ?thesis using s u by (auto simp: DeriveTarget_def)
qed

lemma scaled_target_pos:
  assumes "pow_params_ok params" "cdiv (nPowTargetTimespan params) 4 \<le> e" "8 \<le> t" "0 < limit_val params"
  shows "0 < scaled_target params t e"
proof -
  let ?ts = "nPowTargetTimespan params"
  have ts: "4 \<le> ?ts" using assms(1) by (simp add: pow_params_ok_def)
  have "?ts \<le> 8 * (?ts div 4)" using ts by presburger
  also have "\<dots> \<le> 8 * e" using assms(2) ts by (simp add: cdiv_nonneg)
  finally have "nat ?ts \<le> 8 * nat e" by simp
  also have "\<dots> \<le> t * nat e" using assms(3) by (rule mult_le_mono1)
  finally have "0 < t * nat e div nat ?ts" using ts by (simp add: div_greater_zero_iff)
  then show ?thesis using assms(4) by (simp add: scaled_target_def)
qed

lemma scaled_target_le:
  assumes "pow_params_ok params" "e \<le> nPowTargetTimespan params * 4"
  shows "scaled_target params t e \<le> 4 * t"
proof -
  have ts: "0 < nat (nPowTargetTimespan params)" using assms(1) by (simp add: pow_params_ok_def)
  have "t * nat e \<le> t * (nat (nPowTargetTimespan params) * 4)"
    using assms(2) ts by (intro mult_le_mono2) (simp add: nat_le_iff)
  then have "t * nat e div nat (nPowTargetTimespan params) \<le> t * (nat (nPowTargetTimespan params) * 4) div nat (nPowTargetTimespan params)"
    by (rule div_le_mono)
  also have "\<dots> = 4 * t" using ts by (simp add: mult.left_commute [of t])
  finally show ?thesis by (simp add: scaled_target_def)
qed

lemma retarget_accepted:
  assumes "pow_params_ok params" "snd (SetCompact c) = (False, False)"
    and c: "limbs_val (compact_target c) = compact_floor (scaled_target params t (clamp_timespan params d))"
  shows "limbs_val (compact_target c) \<le> 4 * t"
    and "8 \<le> t \<Longrightarrow> 0 < limit_val params \<Longrightarrow> DeriveTarget c (powLimit params) = Some (compact_target c)"
proof -
  have le: "limbs_val (compact_target c) \<le> scaled_target params t (clamp_timespan params d)"
    unfolding c by (rule compact_floor_le)
  then show "limbs_val (compact_target c) \<le> 4 * t"
    using scaled_target_le [OF assms(1) clamp_bounds(2) [OF assms(1)]] by (rule order.trans)
  assume "8 \<le> t" "0 < limit_val params"
  then have "0 < limbs_val (compact_target c)"
    unfolding c by (intro compact_floor_pos scaled_target_pos assms(1) clamp_bounds)
  moreover have "scaled_target params t (clamp_timespan params d) \<le> limbs_val (UintToArith256 (powLimit params))"
    by (simp add: scaled_target_def limit_val_def)
  ultimately show "DeriveTarget c (powLimit params) = Some (compact_target c)"
    unfolding DeriveTarget_iff using assms(2) le by (blast intro: order.trans)
qed


section \<open>A small network for the examples\<close>

text \<open>The main parameters with an interval of two blocks and the regression network's limit.\<close>

definition ex_params :: Params where
  "ex_params = CMainParams\<lparr>nPowTargetSpacing := 120, nPowTargetTimespan := 240,
     powLimit := replicate 31 0xff @ [0x7f]\<rparr>"

lemma ex_params_ok: "pow_params_ok ex_params"
  by (simp add: pow_params_ok_def ex_params_def CMainParams_def)

lemma ex_params_rules: "\<not> enforce_BIP94 ex_params" "\<not> fPowNoRetargeting ex_params"
    "DifficultyAdjustmentInterval ex_params = 2"
  by (simp_all add: ex_params_def CMainParams_def DifficultyAdjustmentInterval_def cdiv_nonneg)

lemma ex_index_second: "\<exists>b. ex_index [2] = Some b \<and> nHeight b = 1 \<and> nBits b = 0x207fffff"
  by (simp add: ex_index_def ex_add_def index_entry_def ex_header_def)

lemma ex_boundary: "cmod 2 (DifficultyAdjustmentInterval ex_params) = 0"
  by (simp add: ex_params_rules cmod_nonneg)

lemma ex_linked: "linked ex_index"
  using ex_index_wf by (simp add: wf_index_def)

lemma ex_target: "limbs_val (compact_target 0x207fffff) = 0x7fffff * 256 ^ 29"
proof -
  have c: "unat (0x207fffff :: u32) = 0x7fffff + 2 ^ 24 * 0x20" by simp
  show ?thesis using SetCompact_packed(1) [OF c] by (simp add: compact_target_def)
qed

section \<open>Properties\<close>

text \<open>
  C19. \<^verbatim>\<open>ScaleTarget\<close> multiplies before it divides, without losing the overflow: for every 256-bit
  target and limit and all positive \<^verbatim>\<open>int64_t\<close> times it returns exactly
  \<open>min limit (target * elapsed div interval)\<close>, computed over the unbounded integers, although
  \<open>target * elapsed\<close> need not fit in 256 bits.
\<close>

theorem ScaleTarget_exact:
  assumes "wf_uint target" "wf_uint limit" "0 < elapsed" "elapsed < 2 ^ 63" "0 < interval" "interval < 2 ^ 63"
  shows "\<exists>r. ScaleTarget target elapsed interval limit = Inr r \<and> wf_uint r \<and>
    limbs_val r = min (limbs_val limit) (limbs_val target * nat elapsed div nat interval)"
  using assms by (rule ScaleTarget_val)

theorem ScaleTarget_exact_witness:
  "\<exists>r. ScaleTarget (uint_not uint_zero) 3 7 (uint_not uint_zero) = Inr r \<and>
     limbs_val r = (2 ^ 256 - 1) * 3 div 7"
proof -
  have "limbs_val (uint_not uint_zero) = 2 ^ 256 - 1"
    using uint_not_val [of uint_zero] by (simp add: uint_zero_def limbs_val_replicate_0 WIDTH_def)
  then show ?thesis
    using ScaleTarget_exact [of "uint_not uint_zero" "uint_not uint_zero" 3 7] by (auto simp: wf_uint_def)
qed

text \<open>
  C21. On a well-formed block index and for admissible parameters \<^verbatim>\<open>GetNextWorkRequired\<close> always
  returns a value: its search for the last regular block ends, the first block of the interval
  exists, and none of the assertions of the retargeting, scaling and encoding can fail.
\<close>

theorem GetNextWorkRequired_total:
  assumes "pow_params_ok params" "wf_index st" "st p = Some b"
  shows "\<exists>c. GetNextWorkRequired st (Some p) pblock params = Some (Inr c)"
  using assms by (intro next_work_exists) (simp_all add: wf_index_def)

theorem GetNextWorkRequired_total_witness:
  "\<exists>c. GetNextWorkRequired ex_index (Some [2]) (ex_header 2 400) (CRegTestParams True) = Some (Inr c)"
  using GetNextWorkRequired_total [of "CRegTestParams True" ex_index "[2]"] networks_ok [of "CRegTestParams True"]
    ex_index_wf ex_index_second by (auto simp: networks_def)

text \<open>
  C6. Every difficulty that \<^verbatim>\<open>GetNextWorkRequired\<close> demands of a block is one that
  \<^verbatim>\<open>PermittedDifficultyTransition\<close> accepts between that block and its parent, so headers
  synchronisation never turns away a header chain that block validation would accept. This holds on
  each of the networks (main, testnet, testnet4, signet and regtest with and without the timewarp
  rule), and for other admissible parameters that either allow minimum-difficulty blocks or have
  neither the timewarp rule \<^verbatim>\<open>enforce_BIP94\<close> nor \<^verbatim>\<open>fPowNoRetargeting\<close>.
\<close>

theorem required_work_is_permitted:
  assumes "params \<in> set networks \<or> pow_params_ok params \<and>
      (fPowAllowMinDifficultyBlocks params \<or> \<not> enforce_BIP94 params \<and> \<not> fPowNoRetargeting params)"
    and "wf_index st" "st p = Some b" "GetNextWorkRequired st (Some p) pblock params = Some (Inr c)"
  shows "PermittedDifficultyTransition params (nHeight b + 1) (nBits b) c = Inr True"
proof -
  have ok: "pow_params_ok params" using assms(1) networks_ok by blast
  have l: "linked st" using assms(2) by (simp add: wf_index_def)
  have rules: "fPowAllowMinDifficultyBlocks params \<or> \<not> enforce_BIP94 params \<and> \<not> fPowNoRetargeting params"
    using assms(1) networks_rules by blast
  show ?thesis
  proof (cases "fPowAllowMinDifficultyBlocks params \<or> cmod (nHeight b + 1) (DifficultyAdjustmentInterval params) \<noteq> 0")
    case True
    then show ?thesis
      using GetNextWorkRequired_between [OF ok l assms(3), of pblock] interval_pos [OF ok] assms(4)
      by (auto simp: PermittedDifficultyTransition_def)
  next
    case False
    then have bd: "cmod (nHeight b + 1) (DifficultyAdjustmentInterval params) = 0"
      and am: "\<not> fPowAllowMinDifficultyBlocks params" by simp_all
    with rules have nb: "\<not> enforce_BIP94 params" and nr: "\<not> fPowNoRetargeting params" by simp_all
    obtain f where "GetNextWorkRequired st (Some p) pblock params =
        Some (CalculateNextWorkRequired st p (GetBlockTime f) params)"
      by (rule GetNextWorkRequired_retarget [OF ok l assms(3) bd])
    then have "limbs_val (compact_target c) = compact_floor
        (scaled_target params (limbs_val (compact_target (nBits b))) (clamp_timespan params (GetBlockTime b - GetBlockTime f)))"
      using CalculateNextWorkRequired_val [OF ok nr l assms(3), of "nBits b" "GetBlockTime f"] nb assms(4) by auto
    then show ?thesis
      using clamp_bounds [OF ok]
      by (auto simp: PermittedDifficultyTransition_val [OF ok am bd] intro!: compact_floor_mono scaled_target_mono)
  qed
qed

theorem required_work_is_permitted_witness:
  "(\<exists>c. GetNextWorkRequired ex_index (Some [2]) (ex_header 2 400) ex_params = Some (Inr c) \<and>
     PermittedDifficultyTransition ex_params 2 0x207fffff c = Inr True) \<and>
   (\<exists>c. GetNextWorkRequired ex_index (Some [2]) (ex_header 2 400) CTestNet4Params = Some (Inr c) \<and>
     PermittedDifficultyTransition CTestNet4Params 2 0x207fffff c = Inr True)"
proof -
  obtain b where b: "ex_index [2] = Some b" "nHeight b = 1" "nBits b = 0x207fffff" using ex_index_second by blast
  have n: "CTestNet4Params \<in> set networks" by (simp add: networks_def)
  obtain c where c: "GetNextWorkRequired ex_index (Some [2]) (ex_header 2 400) ex_params = Some (Inr c)"
    using next_work_exists [OF ex_params_ok ex_linked b(1)] by blast
  obtain d where d: "GetNextWorkRequired ex_index (Some [2]) (ex_header 2 400) CTestNet4Params = Some (Inr d)"
    using next_work_exists [OF networks_ok [OF n] ex_linked b(1)] by blast
  have "PermittedDifficultyTransition ex_params 2 0x207fffff c = Inr True"
    using required_work_is_permitted [OF _ ex_index_wf b(1) c] ex_params_ok ex_params_rules b by simp
  moreover have "PermittedDifficultyTransition CTestNet4Params 2 0x207fffff d = Inr True"
    using required_work_is_permitted [OF disjI1 [OF n] ex_index_wf b(1) d] b by simp
  ultimately show ?thesis using c d by blast
qed

text \<open>
  C20. At a difficulty boundary, for all admissible parameters, the first block \<open>f\<close> of the interval
  that ends with \<open>b\<close> is found. Without retargeting (\<^verbatim>\<open>fPowNoRetargeting\<close>, the regression network) the
  required difficulty is the bits of \<open>b\<close>. Otherwise the required target decodes to the base target
  scaled by the clamped timespan of the interval and capped at the network's limit, rounded down to
  the compact precision, where the base target is that of \<open>b\<close>, or that of \<open>f\<close> under the timewarp
  rule \<^verbatim>\<open>enforce_BIP94\<close> (testnet4). It is at most four times the base target, and \<^verbatim>\<open>DeriveTarget\<close>
  accepts it as long as the base target is at least 8 and the limit is not zero.
\<close>

theorem retarget_value:
  assumes "pow_params_ok params" "wf_index st" "st p = Some b"
    and "cmod (nHeight b + 1) (DifficultyAdjustmentInterval params) = 0"
  shows "\<exists>q f. GetAncestor st p (nHeight b - (DifficultyAdjustmentInterval params - 1)) = Inr (Some q) \<and>
    st q = Some f \<and>
    (if fPowNoRetargeting params then GetNextWorkRequired st (Some p) pblock params = Some (Inr (nBits b))
     else let base = limbs_val (compact_target (nBits (if enforce_BIP94 params then f else b))) in
       \<exists>c. GetNextWorkRequired st (Some p) pblock params = Some (Inr c) \<and>
         limbs_val (compact_target c) = compact_floor (min (limit_val params)
           (base * nat (clamp_timespan params (GetBlockTime b - GetBlockTime f)) div nat (nPowTargetTimespan params))) \<and>
         limbs_val (compact_target c) \<le> 4 * base \<and>
         (8 \<le> base \<and> 0 < limit_val params \<longrightarrow> DeriveTarget c (powLimit params) = Some (compact_target c)))"
proof -
  have l: "linked st" using assms(2) by (simp add: wf_index_def)
  obtain q f where q: "GetAncestor st p (nHeight b - (DifficultyAdjustmentInterval params - 1)) = Inr (Some q)"
    "st q = Some f"
    "GetNextWorkRequired st (Some p) pblock params = Some (CalculateNextWorkRequired st p (GetBlockTime f) params)"
    by (rule GetNextWorkRequired_retarget [OF assms(1) l assms(3,4)])
  show ?thesis
  proof (cases "fPowNoRetargeting params")
    case True
    then show ?thesis using q assms(3) by (auto simp: CalculateNextWorkRequired_def)
  next
    case False
    let ?old = "nBits (if enforce_BIP94 params then f else b)"
    have "if enforce_BIP94 params
        then \<exists>q f. GetAncestor st p (nHeight b - (DifficultyAdjustmentInterval params - 1)) = Inr (Some q) \<and>
          st q = Some f \<and> ?old = nBits f
        else ?old = nBits b" using q(1,2) by auto
    then obtain c where c: "CalculateNextWorkRequired st p (GetBlockTime f) params = Inr c"
      "snd (SetCompact c) = (False, False)"
      "limbs_val (compact_target c) = compact_floor (scaled_target params (limbs_val (compact_target ?old))
         (clamp_timespan params (GetBlockTime b - GetBlockTime f)))"
      using CalculateNextWorkRequired_val [OF assms(1) False l assms(3), of ?old "GetBlockTime f"] by blast
    have "GetNextWorkRequired st (Some p) pblock params = Some (Inr c)" unfolding q(3) c(1) by (rule refl)
    with q(1,2) c(3) retarget_accepted [OF assms(1) c(2,3)] False show ?thesis
      unfolding scaled_target_def Let_def by auto
  qed
qed

theorem retarget_value_witness:
  "\<exists>c. GetNextWorkRequired ex_index (Some [2]) (ex_header 2 400) ex_params = Some (Inr c) \<and>
     DeriveTarget c (powLimit ex_params) = Some (compact_target c)"
proof -
  obtain b where b: "ex_index [2] = Some b" "nHeight b = 1" "nBits b = 0x207fffff" using ex_index_second by blast
  have "limit_val ex_params \<noteq> 0"
  proof -
    have "UintToArith256 (powLimit ex_params) ! 0 \<noteq> 0" by code_simp
    moreover have "UintToArith256 (powLimit ex_params) ! 0 \<in> set (UintToArith256 (powLimit ex_params))"
      using wf_limit [of "powLimit ex_params"] by (intro nth_mem) (simp add: wf_uint_def WIDTH_def)
    ultimately show ?thesis by (auto simp: limit_val_def limbs_val_0_iff)
  qed
  then show ?thesis
    using retarget_value [OF ex_params_ok ex_index_wf b(1), of "ex_header 2 400"] b ex_boundary
    by (auto simp: ex_target ex_params_rules Let_def)
qed

text \<open>
  C27. \<^verbatim>\<open>CheckProofOfWorkImpl\<close> accepts a hash exactly when the claimed bits decode to a target that
  is positive, not negative, not overflowing and not above the network's limit, and the hash, read
  as a little-endian number, does not exceed that target.
\<close>

theorem CheckProofOfWorkImpl_iff:
  "CheckProofOfWorkImpl hash bits params \<longleftrightarrow>
     snd (SetCompact bits) = (False, False) \<and> 0 < limbs_val (compact_target bits) \<and>
     limbs_val (compact_target bits) \<le> limit_val params \<and>
     limbs_val (UintToArith256 hash) \<le> limbs_val (compact_target bits)"
proof -
  have "CompareTo (UintToArith256 hash) (compact_target bits) > 0 \<longleftrightarrow>
      limbs_val (compact_target bits) < limbs_val (UintToArith256 hash)"
    by (rule u256.cmp_gt [OF wf_limit wf_compact_target])
  then have cmp: "\<not> CompareTo (UintToArith256 hash) (compact_target bits) > 0 \<longleftrightarrow>
      limbs_val (UintToArith256 hash) \<le> limbs_val (compact_target bits)" by (simp only: not_less)
  show ?thesis
  proof (cases "DeriveTarget bits (powLimit params)")
    case None
    have "DeriveTarget bits (powLimit params) \<noteq> Some (compact_target bits)" using None by simp
    note no = this [unfolded DeriveTarget_iff]
    show ?thesis using no unfolding limit_val_def CheckProofOfWorkImpl_def None option.case by blast
  next
    case (Some t)
    then have t: "t = compact_target bits" and ok: "snd (SetCompact bits) = (False, False)" "0 < limbs_val t"
      "limbs_val t \<le> limbs_val (UintToArith256 (powLimit params))" unfolding DeriveTarget_iff by blast+
    show ?thesis using ok unfolding CheckProofOfWorkImpl_def Some option.case t cmp limit_val_def by blast
  qed
qed

end
