(* ===== verification/Rewards.thy ===== *)
theory Rewards
  imports Complex_Main Consensus_Params
begin

text \<open>
  Block rewards and the literacy treasury: the subsidy schedule and the checks that connecting a
  block makes of its coinbase (\<^verbatim>\<open>src/core/src/validation.cpp\<close>), the coinbase outputs that block
  assembly builds (\<^verbatim>\<open>src/core/src/node/miner.cpp\<close>), the coinbase total and the treasury object of a block template
  (\<^verbatim>\<open>src/core/src/rpc/mining.cpp\<close>), and the desktop wallet's estimate of the treasury's income
  (\<^verbatim>\<open>TreasuryStatusCalculator.cs\<close>).

  Amounts are \<^verbatim>\<open>int64_t\<close> in the source. Every sum and product here stays below \<open>2 ^ 63\<close> for
  fees in the money range (lemma \<open>reward_no_overflow\<close>), so they are integers in the model. Heights
  are not negative.
\<close>

section \<open>Amounts\<close>

definition COIN :: int where
  "COIN = 100000000"

definition MAX_MONEY :: int where
  "MAX_MONEY = 21024000 * COIN"

definition MoneyRange :: "int \<Rightarrow> bool" where
  "MoneyRange nValue \<longleftrightarrow> nValue \<ge> 0 \<and> nValue \<le> MAX_MONEY"

record CTxOut =
  nValue :: int
  scriptPubKey :: "u8 list"

fun value_out_loop :: "int \<Rightarrow> CTxOut list \<Rightarrow> int res" where
  "value_out_loop nValueOut [] = (if MoneyRange nValueOut then Inr nValueOut else Inl AssertionFailed)"
| "value_out_loop nValueOut (tx_out # vout) =
     (if \<not> MoneyRange (nValue tx_out) \<or> \<not> MoneyRange (nValueOut + nValue tx_out)
      then Inl (RuntimeError ''GetValueOut: value out of range'')
      else value_out_loop (nValueOut + nValue tx_out) vout)"

definition GetValueOut :: "CTxOut list \<Rightarrow> int res" where
  "GetValueOut vout = value_out_loop 0 vout"

section \<open>Subsidy and treasury share\<close>

definition GetBlockSubsidy :: "int \<Rightarrow> Params \<Rightarrow> int res" where
  "GetBlockSubsidy nHeight consensusParams =
     (if nSubsidyHalvingInterval consensusParams = 0 then Inl DivideByZero
      else
        let halvings = cdiv nHeight (nSubsidyHalvingInterval consensusParams) in
        if halvings \<ge> 64 then Inr 0 else Inr (drop_bit (nat halvings) (10 * COIN)))"

definition treasury_share :: "int \<Rightarrow> Params \<Rightarrow> int" where
  "treasury_share block_subsidy params = cdiv (block_subsidy * treasury_percent params) 100"

text \<open>
  The checks of \<^verbatim>\<open>ConnectBlock\<close> on the coinbase, after the loop over the transactions: the state is
  the reason of a rejection, \<open>None\<close> while the block is valid.
\<close>

definition connect_reward_checks :: "Params \<Rightarrow> int \<Rightarrow> int \<Rightarrow> CTxOut list \<Rightarrow> string option \<Rightarrow> string option res" where
  "connect_reward_checks params nHeight nFees vout state =
     rbind (GetBlockSubsidy nHeight params) (\<lambda>blockSubsidy.
     let blockReward = nFees + blockSubsidy in
     rbind (GetValueOut vout) (\<lambda>value_out.
     let state1 = (if value_out > blockReward \<and> state = None then Some ''bad-cb-amount'' else state) in
     if nHeight > 0 \<and> treasury_script_pub_key params \<noteq> [] \<and> state1 = None then
       let expected_treasury_reward = treasury_share blockSubsidy params;
           actual_treasury_reward =
             sum_list (map nValue (filter (\<lambda>out. scriptPubKey out = treasury_script_pub_key params) vout)) in
       Inr (if actual_treasury_reward \<noteq> expected_treasury_reward then Some ''bad-cb-treasury'' else None)
     else Inr state1))"

text \<open>The coinbase outputs of \<^verbatim>\<open>CreateNewBlock\<close>.\<close>

definition coinbase_outputs :: "Params \<Rightarrow> int \<Rightarrow> int \<Rightarrow> u8 list \<Rightarrow> CTxOut list res" where
  "coinbase_outputs params nHeight nFees coinbase_output_script =
     rbind (GetBlockSubsidy nHeight params) (\<lambda>block_subsidy.
     let treasury_reward = (if treasury_script_pub_key params = [] then 0 else treasury_share block_subsidy params);
         miner_reward = nFees + block_subsidy - treasury_reward in
     Inr (\<lparr>nValue = miner_reward, scriptPubKey = coinbase_output_script\<rparr> #
          (if treasury_reward > 0 then [\<lparr>nValue = treasury_reward, scriptPubKey = treasury_script_pub_key params\<rparr>] else [])))"

text \<open>
  What a block template for the block at \<open>nHeight\<close> tells about its coinbase: the total of its outputs,
  and the treasury object, unless its internal check fails.
\<close>

record template_payment =
  coinbasevalue :: int
  treasury_value :: int
  treasury_script :: "u8 list"
  percent :: int

definition template_treasury :: "Params \<Rightarrow> int \<Rightarrow> CTxOut list \<Rightarrow> template_payment res" where
  "template_treasury params nHeight vout =
     (let coinbase_value = fold (\<lambda>output acc. acc + nValue output) vout 0;
          script = treasury_script_pub_key params;
          treasury_output = find (\<lambda>out. scriptPubKey out = script) vout in
      rbind (if script = [] then Inr 0
             else rbind (GetBlockSubsidy nHeight params) (\<lambda>s. Inr (treasury_share s params))) (\<lambda>value.
      if value = 0 \<or> (case treasury_output of None \<Rightarrow> False | Some out \<Rightarrow> nValue out = value)
      then Inr \<lparr>coinbasevalue = coinbase_value, treasury_value = value, treasury_script = script,
                percent = treasury_percent params\<rparr>
      else Inl (RuntimeError ''NonFatalCheckError'')))"

section \<open>The wallet's estimate\<close>

definition HalvingInterval :: int where
  "HalvingInterval = 1051200"

definition InitialSubsidyAtomic :: int where
  "InitialSubsidyAtomic = 1000000000"

function accrued_loop :: "nat \<Rightarrow> int \<Rightarrow> int \<Rightarrow> int" where
  "accrued_loop era remaining accruedAtomic =
     (if era < 64 \<and> remaining > 0 then
        let subsidy = drop_bit era InitialSubsidyAtomic in
        if subsidy = 0 then accruedAtomic
        else
          let eraBlocks = min remaining (if era = 0 then HalvingInterval - 1 else HalvingInterval) in
          accrued_loop (era + 1) (remaining - eraBlocks) (accruedAtomic + eraBlocks * cdiv subsidy 10)
      else accruedAtomic)"
  by pat_completeness auto

termination
  by (relation "measure (\<lambda>(era, r, a). 64 - era)") auto

declare accrued_loop.simps [simp del]

text \<open>The accrued amount of \<^verbatim>\<open>FromChainHeight\<close> in coins; \<^verbatim>\<open>decimal\<close> holds it exactly.\<close>

definition FromChainHeight :: "int \<Rightarrow> rat" where
  "FromChainHeight chainHeight = of_int (accrued_loop 0 (max 0 chainHeight) 0) / 100000000"

section \<open>The schedule\<close>

definition era_subsidy :: "nat \<Rightarrow> int" where
  "era_subsidy e = (if e \<ge> 64 then 0 else 1000000000 div 2 ^ e)"

lemma subsidy_era:
  assumes "0 < nSubsidyHalvingInterval p" "0 \<le> h"
  shows "GetBlockSubsidy h p = Inr (era_subsidy (nat (h div nSubsidyHalvingInterval p)))"
proof -
  have "0 \<le> h div nSubsidyHalvingInterval p" using assms by (simp add: pos_imp_zdiv_nonneg_iff)
  then show ?thesis using assms
    by (simp add: GetBlockSubsidy_def cdiv_nonneg era_subsidy_def drop_bit_eq_div COIN_def Let_def) linarith
qed

lemma era_subsidy_bounds: "0 \<le> era_subsidy e" "era_subsidy e \<le> 1000000000"
proof -
  have "(1000000000 :: int) div 2 ^ e \<le> 1000000000" by (rule int_div_le_self) simp
  then show "0 \<le> era_subsidy e" "era_subsidy e \<le> 1000000000" by (simp_all add: era_subsidy_def pos_imp_zdiv_nonneg_iff)
qed

lemma reward_no_overflow:
  assumes "MoneyRange nFees" "0 \<le> treasury_percent p" "treasury_percent p \<le> 100"
  shows "nFees + era_subsidy e < 2 ^ 63" "era_subsidy e * treasury_percent p < 2 ^ 63"
proof -
  note b = era_subsidy_bounds [of e]
  show "nFees + era_subsidy e < 2 ^ 63" using assms(1) b(2) by (simp add: MoneyRange_def MAX_MONEY_def COIN_def)
  have "era_subsidy e * treasury_percent p \<le> 1000000000 * 100" by (rule mult_mono) (use b assms in auto)
  then show "era_subsidy e * treasury_percent p < 2 ^ 63" by simp
qed

text \<open>What a network's reward parameters must satisfy.\<close>

definition reward_params_ok :: "Params \<Rightarrow> bool" where
  "reward_params_ok p \<longleftrightarrow> 0 < nSubsidyHalvingInterval p \<and> nSubsidyHalvingInterval p \<le> 1051200 \<and>
     0 \<le> treasury_percent p \<and> treasury_percent p \<le> 100"

lemma networks_reward_ok: "p \<in> set networks \<Longrightarrow> reward_params_ok p"
  by (auto simp: networks_def network_defs reward_params_ok_def)

lemma treasury_share_bounds:
  assumes "reward_params_ok p"
  shows "0 \<le> treasury_share (era_subsidy e) p" "treasury_share (era_subsidy e) p \<le> era_subsidy e"
proof -
  have n: "0 \<le> era_subsidy e * treasury_percent p" using assms era_subsidy_bounds by (simp add: reward_params_ok_def)
  have "era_subsidy e * treasury_percent p \<le> era_subsidy e * 100"
    using assms era_subsidy_bounds by (intro mult_left_mono) (auto simp: reward_params_ok_def)
  then have "era_subsidy e * treasury_percent p div 100 \<le> era_subsidy e" by linarith
  then show "0 \<le> treasury_share (era_subsidy e) p" "treasury_share (era_subsidy e) p \<le> era_subsidy e"
    using n by (simp_all add: treasury_share_def cdiv_nonneg)
qed

lemma value_out_loop_sum:
  "MoneyRange acc \<Longrightarrow> \<forall>out \<in> set vout. 0 \<le> nValue out \<Longrightarrow> acc + sum_list (map nValue vout) \<le> MAX_MONEY \<Longrightarrow>
     value_out_loop acc vout = Inr (acc + sum_list (map nValue vout))"
proof (induction vout arbitrary: acc)
  case (Cons out vout)
  have s: "0 \<le> sum_list (map nValue vout)" using Cons.prems(2) by (intro sum_list_nonneg) auto
  then have "MoneyRange (nValue out)" "MoneyRange (acc + nValue out)" using Cons.prems by (auto simp: MoneyRange_def)
  then show ?case using Cons.IH [of "acc + nValue out"] Cons.prems by (simp add: algebra_simps)
qed simp

section \<open>Properties\<close>

lemma subsidy_sum_eras: "sum (\<lambda>h. era_subsidy (h div i)) {..<n * i} = int i * sum era_subsidy {..<n}"
proof (cases "i = 0")
  case False
  have "sum (\<lambda>h. era_subsidy (h div i)) {m * i..<m * i + i} = int i * era_subsidy m" for m
  proof -
    have "h div i = m" if "h \<in> {m * i..<m * i + i}" for h
      using that False by (intro div_nat_eqI) (auto simp: algebra_simps)
    then have "sum (\<lambda>h. era_subsidy (h div i)) {m * i..<m * i + i} = sum (\<lambda>h. era_subsidy m) {m * i..<m * i + i}"
      by (intro sum.cong) auto
    then show ?thesis by simp
  qed
  then show ?thesis using sum.nat_group [of "\<lambda>h. era_subsidy (h div i)" i n, symmetric] by (simp add: sum_distrib_left)
qed simp

lemma era_subsidy_total: "sum era_subsidy {..<64} < 2000000000"
  by (simp add: era_subsidy_def lessThan_nat_numeral)

lemma era_subsidy_sum_bound: "sum era_subsidy {..<n} < 2000000000"
proof -
  have z: "era_subsidy e = 0" if "e \<in> {64..<n}" for e using that by (simp add: era_subsidy_def)
  have "sum era_subsidy {..<n} \<le> sum era_subsidy {..<64}"
  proof (cases "n \<le> 64")
    case True
    then show ?thesis by (intro sum_mono2) (auto simp: era_subsidy_bounds)
  next
    case False
    then have "{..<n} = {..<64} \<union> {64..<n}" by auto
    then have "sum era_subsidy {..<n} = sum era_subsidy {..<64} + sum era_subsidy {64..<n}"
      by (simp add: sum.union_disjoint ivl_disj_int)
    then show ?thesis using z by simp
  qed
  then show ?thesis using era_subsidy_total by simp
qed

definition subsidy_at :: "Params \<Rightarrow> nat \<Rightarrow> int" where
  "subsidy_at p h = (case GetBlockSubsidy (int h) p of Inl _ \<Rightarrow> 0 | Inr s \<Rightarrow> s)"

lemma subsidy_at_era:
  assumes "reward_params_ok p"
  shows "subsidy_at p h = era_subsidy (h div nat (nSubsidyHalvingInterval p))"
proof -
  have "nat (int h div nSubsidyHalvingInterval p) = h div nat (nSubsidyHalvingInterval p)"
    using assms by (simp add: reward_params_ok_def nat_div_distrib)
  then show ?thesis using assms subsidy_era [of p "int h"] by (simp add: subsidy_at_def reward_params_ok_def)
qed

text \<open>
  C25. The money supply is bounded. On every network whose halving interval is positive and at most 1051200,
  the subsidy exists at every height, and the subsidies of all blocks below any height together stay below
  MAX_MONEY.
\<close>

theorem issuance_below_MAX_MONEY:
  assumes "reward_params_ok p"
  shows "(\<forall>h. GetBlockSubsidy (int h) p = Inr (subsidy_at p h) \<and> 0 \<le> subsidy_at p h) \<and>
    (\<Sum>h<n. subsidy_at p h) < MAX_MONEY"
proof
  show "\<forall>h. GetBlockSubsidy (int h) p = Inr (subsidy_at p h) \<and> 0 \<le> subsidy_at p h"
    using assms subsidy_era [of p] era_subsidy_bounds(1) by (simp add: subsidy_at_def reward_params_ok_def)
  let ?i = "nat (nSubsidyHalvingInterval p)"
  have i: "0 < ?i" "int ?i \<le> 1051200" using assms by (simp_all add: reward_params_ok_def)
  have "(\<Sum>h<n. subsidy_at p h) = (\<Sum>h<n. era_subsidy (h div ?i))" by (simp add: subsidy_at_era [OF assms])
  also have "\<dots> \<le> (\<Sum>h<n * ?i. era_subsidy (h div ?i))"
    using i(1) by (intro sum_mono2) (auto simp: era_subsidy_bounds intro: less_le_trans)
  also have "\<dots> = int ?i * sum era_subsidy {..<n}" by (rule subsidy_sum_eras)
  also have "\<dots> \<le> 1051200 * 1999999999"
  proof (rule mult_mono [OF i(2)])
    show "sum era_subsidy {..<n} \<le> 1999999999" using era_subsidy_sum_bound [of n] by simp
    show "0 \<le> sum era_subsidy {..<n}" by (simp add: era_subsidy_bounds sum_nonneg)
  qed simp
  finally show "(\<Sum>h<n. subsidy_at p h) < MAX_MONEY" by (simp add: MAX_MONEY_def COIN_def)
qed

theorem issuance_below_MAX_MONEY_witness:
  "(\<Sum>h<5000000. subsidy_at CMainParams h) < MAX_MONEY"
proof -
  have "reward_params_ok CMainParams" by (rule networks_reward_ok) (simp add: networks_def)
  then show ?thesis using issuance_below_MAX_MONEY [of CMainParams 5000000] by blast
qed

text \<open>The treasury's share at a height, and what remains for the miner.\<close>

definition share_at :: "Params \<Rightarrow> int \<Rightarrow> int" where
  "share_at p h = (if treasury_script_pub_key p = [] then 0 else treasury_share (subsidy_at p (nat h)) p)"

definition miner_reward_at :: "Params \<Rightarrow> int \<Rightarrow> int \<Rightarrow> int" where
  "miner_reward_at p h nFees = nFees + subsidy_at p (nat h) - share_at p h"

lemma share_at_facts:
  assumes "reward_params_ok p" "0 \<le> h"
  shows "GetBlockSubsidy h p = Inr (subsidy_at p (nat h))" "0 \<le> subsidy_at p (nat h)" "subsidy_at p (nat h) \<le> 10 * COIN"
    "0 \<le> share_at p h" "share_at p h \<le> subsidy_at p (nat h)"
    "treasury_script_pub_key p \<noteq> [] \<Longrightarrow> treasury_share (subsidy_at p (nat h)) p = share_at p h"
    "coinbase_outputs p h nFees script =
       Inr (\<lparr>nValue = miner_reward_at p h nFees, scriptPubKey = script\<rparr> #
         (if share_at p h > 0 then [\<lparr>nValue = share_at p h, scriptPubKey = treasury_script_pub_key p\<rparr>] else []))"
proof -
  show sub: "GetBlockSubsidy h p = Inr (subsidy_at p (nat h))"
    using subsidy_era [of p h] assms by (simp add: subsidy_at_def reward_params_ok_def)
  show "0 \<le> subsidy_at p (nat h)" "subsidy_at p (nat h) \<le> 10 * COIN"
    "0 \<le> share_at p h" "share_at p h \<le> subsidy_at p (nat h)"
    using era_subsidy_bounds treasury_share_bounds [OF assms(1)]
    by (simp_all add: share_at_def subsidy_at_era [OF assms(1)] COIN_def)
  show "coinbase_outputs p h nFees script =
       Inr (\<lparr>nValue = miner_reward_at p h nFees, scriptPubKey = script\<rparr> #
         (if share_at p h > 0 then [\<lparr>nValue = share_at p h, scriptPubKey = treasury_script_pub_key p\<rparr>] else []))"
    by (simp add: coinbase_outputs_def sub share_at_def miner_reward_at_def Let_def)
qed (simp add: share_at_def)

text \<open>
  C10. Block assembly and block validation agree. For every network with sound reward parameters, every positive
  height and all fees in range, the coinbase outputs of CreateNewBlock exist and pay out exactly fees plus
  subsidy; with any further outputs of value zero appended (the witness commitment), ConnectBlock accepts
  them, except when the miner's own script is the treasury's and the miner's part is not zero: then it
  rejects them as bad-cb-treasury.
\<close>

theorem assembled_coinbase_is_accepted:
  assumes "reward_params_ok p" "0 < h" "0 \<le> nFees" "nFees + 10 * COIN \<le> MAX_MONEY" "\<forall>out \<in> set extra. nValue out = 0"
  shows "\<exists>vout. coinbase_outputs p h nFees script = Inr vout \<and>
    GetValueOut (vout @ extra) = Inr (nFees + subsidy_at p (nat h)) \<and>
    connect_reward_checks p h nFees (vout @ extra) None =
      Inr (if treasury_script_pub_key p \<noteq> [] \<and> script = treasury_script_pub_key p \<and> miner_reward_at p h nFees \<noteq> 0
           then Some ''bad-cb-treasury'' else None)"
proof -
  note f = share_at_facts [OF assms(1) less_imp_le [OF assms(2)]]
  let ?t = "treasury_script_pub_key p"
  define vout where "vout = \<lparr>nValue = miner_reward_at p h nFees, scriptPubKey = script\<rparr> #
      (if share_at p h > 0 then [\<lparr>nValue = share_at p h, scriptPubKey = ?t\<rparr>] else [])"
  have zero: "sum_list (map nValue (filter P extra)) = 0" for P using assms(5) by (induction extra) auto
  have tot: "sum_list (map nValue (vout @ extra)) = nFees + subsidy_at p (nat h)"
    using zero [of "\<lambda>_. True"] f(4) by (auto simp: vout_def miner_reward_at_def)
  have "\<forall>out \<in> set (vout @ extra). 0 \<le> nValue out" using assms(3,5) f(2,4,5) by (auto simp: vout_def miner_reward_at_def)
  then have val: "GetValueOut (vout @ extra) = Inr (nFees + subsidy_at p (nat h))"
    using value_out_loop_sum [of 0 "vout @ extra"] tot assms(3,4) f(2,3)
    by (simp add: GetValueOut_def MoneyRange_def MAX_MONEY_def COIN_def)
  have act: "sum_list (map nValue (filter (\<lambda>out. scriptPubKey out = ?t) (vout @ extra))) =
      (if script = ?t then miner_reward_at p h nFees else 0) + share_at p h"
    using zero f(4) by (auto simp: vout_def)
  have "connect_reward_checks p h nFees (vout @ extra) None =
      Inr (if ?t \<noteq> [] \<and> script = ?t \<and> miner_reward_at p h nFees \<noteq> 0 then Some ''bad-cb-treasury'' else None)"
    using assms(2) by (simp add: connect_reward_checks_def f(1,6) val act Let_def del: filter_append)
  then show ?thesis using f(7) val vout_def by blast
qed

theorem assembled_coinbase_is_accepted_witness:
  "\<exists>vout. coinbase_outputs CTestNetParams 7 1000 [0x51] = Inr vout \<and>
     connect_reward_checks CTestNetParams 7 1000 vout None = Inr None"
proof -
  have "reward_params_ok CTestNetParams" by (rule networks_reward_ok) (simp add: networks_def)
  moreover have "[0x51] \<noteq> treasury_script_pub_key CTestNetParams" by (simp add: CTestNetParams_def test_treasury_script_def)
  ultimately show ?thesis
    using assembled_coinbase_is_accepted [of CTestNetParams 7 1000 "[]" "[0x51]"] by (auto simp: MAX_MONEY_def COIN_def)
qed

text \<open>
  C40. A block template tells pools exactly what validation requires. For every network with sound reward
  parameters, a positive height, fees in the money range and a template built with a miner script other than the
  treasury's (with outputs of value zero appended), the internal check of the treasury output passes.
  Whatever outputs a pool then puts into its coinbase, ConnectBlock's reward checks reject it as
  bad-cb-amount when the total exceeds the advertised coinbasevalue, otherwise as bad-cb-treasury when
  there is a treasury script and the outputs to the advertised script do not sum to the advertised value,
  and accept it in all other cases.
\<close>

theorem template_advertises_required_payment:
  assumes "reward_params_ok p" "0 < h" "script \<noteq> treasury_script_pub_key p" "MoneyRange nFees"
    and "coinbase_outputs p h nFees script = Inr vout" "\<forall>out \<in> set extra. nValue out = 0"
  shows "\<exists>t. template_treasury p h (vout @ extra) = Inr t \<and> percent t = treasury_percent p \<and>
    treasury_script t = treasury_script_pub_key p \<and>
    (\<forall>outs total. GetValueOut outs = Inr total \<longrightarrow>
       connect_reward_checks p h nFees outs None = Inr
         (if total > coinbasevalue t then Some ''bad-cb-amount''
          else if treasury_script t \<noteq> [] \<and>
            sum_list (map nValue (filter (\<lambda>out. scriptPubKey out = treasury_script t) outs)) \<noteq> treasury_value t
          then Some ''bad-cb-treasury'' else None))"
proof -
  note f = share_at_facts [OF assms(1) less_imp_le [OF assms(2)]]
  let ?t = "treasury_script_pub_key p"
  have v: "(if ?t = [] then Inr 0 else rbind (GetBlockSubsidy h p) (\<lambda>s. Inr (treasury_share s p))) = (Inr (share_at p h) :: int res)"
    by (simp add: f(1)) (simp add: share_at_def)
  have c: "share_at p h = 0 \<or> (case find (\<lambda>out. scriptPubKey out = ?t) (vout @ extra) of None \<Rightarrow> False | Some out \<Rightarrow> nValue out = share_at p h)"
    using assms(3,5) f(4) unfolding f(7) by (auto split: if_splits)
  have zero: "sum_list (map nValue extra) = 0" using assms(6) by (induction extra) auto
  have fld: "fold (\<lambda>output acc. acc + nValue output) xs a = a + sum_list (map nValue xs)" for xs a
    by (induction xs arbitrary: a) simp_all
  have "fold (\<lambda>output acc. acc + nValue output) (vout @ extra) 0 = sum_list (map nValue vout)"
    unfolding fld by (simp add: zero)
  also have "\<dots> = nFees + subsidy_at p (nat h)"
    using assms(5) f(4) unfolding f(7) by (auto simp: miner_reward_at_def split: if_splits)
  finally have "template_treasury p h (vout @ extra) = Inr \<lparr>coinbasevalue = nFees + subsidy_at p (nat h),
      treasury_value = share_at p h, treasury_script = ?t, percent = treasury_percent p\<rparr>"
    using c unfolding template_treasury_def Let_def v by simp
  moreover have "connect_reward_checks p h nFees outs None = Inr
      (if total > nFees + subsidy_at p (nat h) then Some ''bad-cb-amount''
       else if ?t \<noteq> [] \<and> sum_list (map nValue (filter (\<lambda>out. scriptPubKey out = ?t) outs)) \<noteq> share_at p h
       then Some ''bad-cb-treasury'' else None)" if "GetValueOut outs = Inr total" for outs total
    using that assms(2) by (simp add: connect_reward_checks_def f(1,6) Let_def)
  ultimately show ?thesis
    by (intro exI [of _ "\<lparr>coinbasevalue = nFees + subsidy_at p (nat h), treasury_value = share_at p h,
      treasury_script = ?t, percent = treasury_percent p\<rparr>"]) simp
qed

text \<open>A pool that keeps everything for itself is rejected.\<close>

theorem template_advertises_required_payment_witness:
  "\<exists>vout t. coinbase_outputs CTestNetParams 7 1000 [0x51] = Inr vout \<and>
     template_treasury CTestNetParams 7 vout = Inr t \<and> treasury_value t = 100000000 \<and>
     connect_reward_checks CTestNetParams 7 1000 [\<lparr>nValue = 1000000000, scriptPubKey = [0x51]\<rparr>] None =
       Inr (Some ''bad-cb-treasury'')"
proof -
  let ?v = "\<lparr>nValue = 900001000, scriptPubKey = [0x51]\<rparr> # [\<lparr>nValue = 100000000, scriptPubKey = test_treasury_script\<rparr>]"
  have p: "reward_params_ok CTestNetParams" by (rule networks_reward_ok) (simp add: networks_def)
  have ts: "treasury_script_pub_key CTestNetParams = test_treasury_script" by (simp add: CTestNetParams_def)
  have s: "[0x51] \<noteq> treasury_script_pub_key CTestNetParams" by (simp add: ts test_treasury_script_def)
  have m: "MoneyRange 1000" by code_simp
  have v: "coinbase_outputs CTestNetParams 7 1000 [0x51] = Inr ?v" by code_simp
  have e: "template_treasury CTestNetParams 7 ?v = Inr \<lparr>coinbasevalue = 1000001000, treasury_value = 100000000,
      treasury_script = test_treasury_script, percent = 10\<rparr>" by code_simp
  have g: "GetValueOut [\<lparr>nValue = 1000000000, scriptPubKey = [0x51]\<rparr>] = Inr 1000000000" by code_simp
  from template_advertises_required_payment [OF p _ s m v, of "[]"] e
  have "\<forall>outs total. GetValueOut outs = Inr total \<longrightarrow>
       connect_reward_checks CTestNetParams 7 1000 outs None = Inr
         (if total > 1000001000 then Some ''bad-cb-amount''
          else if test_treasury_script \<noteq> [] \<and>
            sum_list (map nValue (filter (\<lambda>out. scriptPubKey out = test_treasury_script) outs)) \<noteq> 100000000
          then Some ''bad-cb-treasury'' else None)" by simp
  from this [rule_format, OF g] s
  have "connect_reward_checks CTestNetParams 7 1000 [\<lparr>nValue = 1000000000, scriptPubKey = [0x51]\<rparr>] None =
       Inr (Some ''bad-cb-treasury'')" by (simp add: ts test_treasury_script_def)
  moreover have "treasury_value \<lparr>coinbasevalue = 1000001000, treasury_value = 100000000,
      treasury_script = test_treasury_script, percent = 10\<rparr> = 100000000" by simp
  ultimately show ?thesis using v e by blast
qed

section \<open>The wallet's estimate equals the consensus rule\<close>

lemma era_subsidy_mono: "e \<le> e' \<Longrightarrow> era_subsidy e' \<le> era_subsidy e"
proof -
  assume "e \<le> e'"
  then have "(1000000000 :: int) div 2 ^ e' \<le> 1000000000 div 2 ^ e"
    by (intro zdiv_mono2) (simp_all add: power_increasing)
  then show ?thesis using \<open>e \<le> e'\<close> by (simp add: era_subsidy_def pos_imp_zdiv_nonneg_iff)
qed

definition era_start :: "nat \<Rightarrow> nat" where
  "era_start era = (if era = 0 then 1 else era * 1051200)"

lemma era_sum:
  assumes "m \<le> era_start (Suc era) - era_start era"
  shows "(\<Sum>k \<in> {era_start era..<era_start era + m}. era_subsidy (k div 1051200) div 10) = int m * (era_subsidy era div 10)"
proof -
  have "k div 1051200 = era" if "k \<in> {era_start era..<era_start era + m}" for k
    using that assms by (intro div_nat_eqI) (auto simp: era_start_def split: if_splits)
  then have "(\<Sum>k \<in> {era_start era..<era_start era + m}. era_subsidy (k div 1051200) div 10) =
      (\<Sum>k \<in> {era_start era..<era_start era + m}. era_subsidy era div 10)" by (intro sum.cong) auto
  then show ?thesis by simp
qed

lemma accrued_loop_sum:
  "accrued_loop era (int r) acc = acc + (\<Sum>k \<in> {era_start era..<era_start era + r}. era_subsidy (k div 1051200) div 10)"
proof (induction "64 - era" arbitrary: era r acc rule: less_induct)
  case less
  let ?G = "\<lambda>k. era_subsidy (k div 1051200) div 10"
  have late: "era_subsidy (k div 1051200) \<le> era_subsidy era" if "k \<in> {era_start era..<era_start era + r}" for k
    using that by (intro era_subsidy_mono) (auto simp: era_start_def less_eq_div_iff_mult_less_eq split: if_splits)
  show ?case
  proof (cases "era < 64 \<and> 0 < r \<and> era_subsidy era \<noteq> 0")
    case False
    have "r = 0 \<or> era_subsidy era = 0" using False by (auto simp: era_subsidy_def)
    then have "sum ?G {era_start era..<era_start era + r} = 0"
    proof
      assume z: "era_subsidy era = 0"
      have "?G k = 0" if "k \<in> {era_start era..<era_start era + r}" for k
        using late [OF that] era_subsidy_bounds(1) [of "k div 1051200"] z by simp
      then show ?thesis by (intro sum.neutral) blast
    qed simp
    moreover have "accrued_loop era (int r) acc = acc"
      using False by (subst accrued_loop.simps) (auto simp: Let_def era_subsidy_def InitialSubsidyAtomic_def drop_bit_eq_div)
    ultimately show ?thesis by simp
  next
    case True
    define cap where "cap = era_start (Suc era) - era_start era"
    define m where "m = min r cap"
    have cap: "int cap = (if era = 0 then HalvingInterval - 1 else HalvingInterval)" "era_start era + cap = era_start (Suc era)"
      by (simp_all add: cap_def era_start_def HalvingInterval_def)
    have sub: "drop_bit era InitialSubsidyAtomic = era_subsidy era"
      using True by (simp add: era_subsidy_def InitialSubsidyAtomic_def drop_bit_eq_div)
    have "accrued_loop era (int r) acc = accrued_loop (era + 1) (int r - int m) (acc + int m * (era_subsidy era div 10))"
      using True cap(1) era_subsidy_bounds(1) [of era]
      by (subst accrued_loop.simps) (simp add: sub Let_def m_def cdiv_nonneg flip: cap(1))
    also have "int r - int m = int (r - m)" by (simp add: m_def)
    also have "accrued_loop (era + 1) (int (r - m)) (acc + int m * (era_subsidy era div 10)) =
        acc + int m * (era_subsidy era div 10) + sum ?G {era_start (Suc era)..<era_start (Suc era) + (r - m)}"
    proof -
      have "64 - Suc era < 64 - era" using True by arith
      from less [OF this] show ?thesis by simp
    qed
    also have "int m * (era_subsidy era div 10) = sum ?G {era_start era..<era_start era + m}"
      by (rule era_sum [symmetric]) (simp add: m_def cap_def)
    also have "sum ?G {era_start (Suc era)..<era_start (Suc era) + (r - m)} = sum ?G {era_start era + m..<era_start era + r}"
      by (cases "r \<le> cap") (simp_all add: m_def flip: cap(2))
    also have "acc + sum ?G {era_start era..<era_start era + m} + sum ?G {era_start era + m..<era_start era + r} =
        acc + sum ?G {era_start era..<era_start era + r}"
      using sum.atLeastLessThan_concat [of "era_start era" "era_start era + m" "era_start era + r" ?G] by (simp add: m_def)
    finally show ?thesis .
  qed
qed

text \<open>
  C39. The desktop wallet's estimate is exact. On the four networks with the full halving interval, the amount
  that FromChainHeight computes from the height alone is the sum, over all blocks from the first to that
  height, of the treasury payment that block validation requires, rounded per block in atomic units.
\<close>

theorem wallet_estimate_is_required_income:
  assumes "p \<in> set [CMainParams, CTestNetParams, CTestNet4Params, SigNetParams]"
  shows "FromChainHeight (int n) = of_int (\<Sum>h = 1..n. share_at p (int h)) / of_int COIN"
proof -
  have p: "reward_params_ok p" "nat (nSubsidyHalvingInterval p) = 1051200" "treasury_percent p = 10" "treasury_script_pub_key p \<noteq> []"
    using assms by (auto simp: reward_params_ok_def network_defs test_treasury_script_def)
  have "share_at p (int h) = era_subsidy (h div 1051200) div 10" for h
  proof -
    have "era_subsidy (h div 1051200) * 10 div 100 = era_subsidy (h div 1051200) div 10" by linarith
    then show ?thesis using p era_subsidy_bounds(1) [of "h div 1051200"]
      by (simp add: share_at_def subsidy_at_era treasury_share_def cdiv_nonneg)
  qed
  then have "accrued_loop 0 (int n) 0 = (\<Sum>h = 1..n. share_at p (int h))"
    using accrued_loop_sum [of 0 n 0] by (simp add: era_start_def atLeastLessThanSuc_atLeastAtMost)
  then show ?thesis by (simp add: FromChainHeight_def COIN_def)
qed

theorem wallet_estimate_is_required_income_witness:
  "FromChainHeight (int 2000000) = of_int (\<Sum>h = 1..2000000. share_at CTestNetParams (int h)) / of_int COIN"
  by (rule wallet_estimate_is_required_income) simp

end
