(* ===== verification/JS_Value.thy ===== *)
theory JS_Value
  imports Complex_Main Prelude "HOL-Library.Log_Nat"
begin

text \<open>
  The part of JavaScript that the scripts under \<^verbatim>\<open>src/site\<close> run on: numbers, strings of UTF-16 code
  units, the values \<^verbatim>\<open>JSON.parse\<close> can produce, truthiness, property reads, coercion to strings,
  and exceptions as values. A number is a NaN, an infinity or the rational value of a double;
  arithmetic rounds to the nearest double, ties to even. The two zeros are one number: no script
  here can tell them apart.
\<close>

section \<open>Numbers\<close>

datatype jsnum = NaN | Infinity bool | Fin rat

definition pow2 :: "int \<Rightarrow> rat" where
  "pow2 e = 2 powi e"

definition round_half_even :: "rat \<Rightarrow> int" where
  "round_half_even x =
     (let f = \<lfloor>x\<rfloor>; d = x - of_int f in
      if d < 1 / 2 \<or> (d = 1 / 2 \<and> even f) then f else f + 1)"

text \<open>The position of the leading bit of a positive rational.\<close>

definition log2_floor :: "rat \<Rightarrow> int" where
  "log2_floor q =
     (let (n, d) = quotient_of q; k = bitlen n - bitlen d in
      if pow2 k \<le> q then k else k - 1)"

definition round_pos :: "rat \<Rightarrow> rat" where
  "round_pos q =
     (let e = max (- 1074) (log2_floor q - 52) in of_int (round_half_even (q / pow2 e)) * pow2 e)"

definition round_double :: "rat \<Rightarrow> jsnum" where
  "round_double q =
     (if q = 0 then Fin 0
      else let r = round_pos \<bar>q\<bar> in
        if r \<ge> 2 ^ 1024 then Infinity (q < 0) else Fin (if q < 0 then - r else r))"

fun num_sub :: "jsnum \<Rightarrow> jsnum \<Rightarrow> jsnum" where
  "num_sub (Fin a) (Fin b) = round_double (a - b)"
| "num_sub (Fin a) (Infinity n) = Infinity (\<not> n)"
| "num_sub (Infinity n) (Fin a) = Infinity n"
| "num_sub (Infinity n) (Infinity m) = (if n = m then NaN else Infinity n)"
| "num_sub NaN _ = NaN"
| "num_sub _ NaN = NaN"

fun num_neg :: "jsnum \<Rightarrow> jsnum" where
  "num_neg (Fin a) = Fin (- a)"
| "num_neg (Infinity n) = Infinity (\<not> n)"
| "num_neg NaN = NaN"

definition num_add :: "jsnum \<Rightarrow> jsnum \<Rightarrow> jsnum" where
  "num_add a b = num_sub a (num_neg b)"

fun num_mul_pos :: "jsnum \<Rightarrow> rat \<Rightarrow> jsnum" where
  "num_mul_pos (Fin a) k = round_double (a * k)"
| "num_mul_pos x k = x"

text \<open>Comparison; every comparison with NaN is false.\<close>

fun num_le :: "jsnum \<Rightarrow> jsnum \<Rightarrow> bool" where
  "num_le NaN _ = False"
| "num_le _ NaN = False"
| "num_le (Fin a) (Fin b) = (a \<le> b)"
| "num_le (Fin a) (Infinity n) = (\<not> n)"
| "num_le (Infinity n) (Fin a) = n"
| "num_le (Infinity n) (Infinity m) = (n \<or> \<not> m)"

fun num_lt :: "jsnum \<Rightarrow> jsnum \<Rightarrow> bool" where
  "num_lt NaN _ = False"
| "num_lt _ NaN = False"
| "num_lt (Fin a) (Fin b) = (a < b)"
| "num_lt (Fin a) (Infinity n) = (\<not> n)"
| "num_lt (Infinity n) (Fin a) = n"
| "num_lt (Infinity n) (Infinity m) = (n \<and> \<not> m)"

fun num_finite :: "jsnum \<Rightarrow> bool" where
  "num_finite (Fin _) = True"
| "num_finite _ = False"

section \<open>Strings and values\<close>

type_synonym jsstr = "nat list"

definition lit :: "string \<Rightarrow> jsstr" where
  "lit s = map of_char s"

datatype jsval = JUndefined | JNull | JBool bool | JNum jsnum | JStr jsstr
  | JArr "jsval list" | JObj "(jsstr \<times> jsval) list"

datatype js_error = TypeError | SyntaxError | Thrown jsstr | NetworkError

type_synonym 'a js = "js_error + 'a"

fun truthy :: "jsval \<Rightarrow> bool" where
  "truthy JUndefined = False"
| "truthy JNull = False"
| "truthy (JBool b) = b"
| "truthy (JNum n) = (n \<noteq> NaN \<and> n \<noteq> Fin 0)"
| "truthy (JStr s) = (s \<noteq> [])"
| "truthy (JArr _) = True"
| "truthy (JObj _) = True"

text \<open>
  Reading a property. Null and undefined throw. Objects made by \<^verbatim>\<open>JSON.parse\<close> answer with their own
  property; none of the names the scripts read this way is inherited from a built-in prototype.
\<close>

definition get :: "jsval \<Rightarrow> string \<Rightarrow> jsval js" where
  "get v k = (case v of JUndefined \<Rightarrow> Inl TypeError | JNull \<Rightarrow> Inl TypeError
     | JObj ps \<Rightarrow> (case map_of ps (lit k) of None \<Rightarrow> Inr JUndefined | Some x \<Rightarrow> Inr x)
     | _ \<Rightarrow> Inr JUndefined)"

definition opt_get :: "jsval \<Rightarrow> string \<Rightarrow> jsval" where
  "opt_get v k = (case get v k of Inl _ \<Rightarrow> JUndefined | Inr x \<Rightarrow> x)"

text \<open>The operators \<^verbatim>\<open>&&\<close> on conditions, and \<^verbatim>\<open>every\<close> and \<^verbatim>\<open>some\<close> of an array, which stop at the first decision.\<close>

definition js_and :: "bool js \<Rightarrow> bool js \<Rightarrow> bool js" where
  "js_and a b = rbind a (\<lambda>x. if x then b else Inr False)"

definition js_or :: "bool js \<Rightarrow> bool js \<Rightarrow> bool js" where
  "js_or a b = rbind a (\<lambda>x. if x then Inr True else b)"

fun js_all :: "bool js list \<Rightarrow> bool js" where
  "js_all [] = Inr True"
| "js_all (c # cs) = js_and c (js_all cs)"

fun js_every :: "('a \<Rightarrow> bool js) \<Rightarrow> 'a list \<Rightarrow> bool js" where
  "js_every f [] = Inr True"
| "js_every f (x # xs) = js_and (f x) (js_every f xs)"

fun js_some :: "('a \<Rightarrow> bool js) \<Rightarrow> 'a list \<Rightarrow> bool js" where
  "js_some f [] = Inr False"
| "js_some f (x # xs) = js_or (f x) (js_some f xs)"

fun isArray :: "jsval \<Rightarrow> bool" where
  "isArray (JArr _) = True"
| "isArray _ = False"

fun elems :: "jsval \<Rightarrow> jsval list" where
  "elems (JArr xs) = xs"
| "elems _ = []"

fun is_string :: "jsval \<Rightarrow> bool" where
  "is_string (JStr _) = True"
| "is_string _ = False"

fun is_boolean :: "jsval \<Rightarrow> bool" where
  "is_boolean (JBool _) = True"
| "is_boolean _ = False"

fun isFinite :: "jsval \<Rightarrow> bool" where
  "isFinite (JNum n) = num_finite n"
| "isFinite _ = False"

fun isSafeInteger :: "jsval \<Rightarrow> bool" where
  "isSafeInteger (JNum (Fin q)) = (q = of_int \<lfloor>q\<rfloor> \<and> \<bar>q\<bar> \<le> 2 ^ 53 - 1)"
| "isSafeInteger _ = False"

text \<open>Comparison of two values that are numbers; the scripts compare nothing else.\<close>

fun val_le :: "jsval \<Rightarrow> jsval \<Rightarrow> bool" where
  "val_le (JNum a) (JNum b) = num_le a b"
| "val_le _ _ = False"

lemma lit_inj: "lit a = lit b \<longleftrightarrow> a = b"
  by (simp add: lit_def inj_map_eq_map inj_of_char)

section \<open>Coercion to strings\<close>

text \<open>
  What the language leaves to the implementation and the user's locale: \<^verbatim>\<open>Date.parse\<close> on strings
  outside the interchange format, the decimal form of a number that is not an integer below
  \<open>10 ^ 21\<close>, and the locale formats.
\<close>

record js_env =
  date_other :: "jsstr \<Rightarrow> jsnum"
  num_other :: "jsnum \<Rightarrow> jsstr"
  num_locale :: "jsnum \<Rightarrow> jsstr"
  money_locale :: "jsnum \<Rightarrow> jsstr"
  date_locale :: "int \<Rightarrow> jsstr"
  clock_locale :: "int \<Rightarrow> jsstr"

text \<open>One such environment, for the examples.\<close>

definition ex_env :: js_env where
  "ex_env = \<lparr>date_other = (\<lambda>_. NaN), num_other = (\<lambda>_. []), num_locale = (\<lambda>_. []), money_locale = (\<lambda>_. []),
     date_locale = (\<lambda>_. []), clock_locale = (\<lambda>_. [])\<rparr>"

fun digits :: "nat \<Rightarrow> jsstr" where
  "digits n = (if n < 10 then [48 + n] else digits (n div 10) @ [48 + n mod 10])"

declare digits.simps [simp del]

definition num_string :: "js_env \<Rightarrow> jsnum \<Rightarrow> jsstr" where
  "num_string env n =
     (case n of NaN \<Rightarrow> lit ''NaN''
      | Infinity neg \<Rightarrow> lit (if neg then ''-Infinity'' else ''Infinity'')
      | Fin q \<Rightarrow> if q = of_int \<lfloor>q\<rfloor> \<and> \<bar>q\<bar> < 10 ^ 21
                then (if q < 0 then lit ''-'' else []) @ digits (nat \<bar>\<lfloor>q\<rfloor>\<bar>)
                else num_other env n)"

text \<open>
  \<^verbatim>\<open>ToString\<close>. An array joins its elements, null and undefined as the empty string. An object
  calls its \<^verbatim>\<open>toString\<close>: when \<^verbatim>\<open>JSON.parse\<close> gave it a property of that name, that value is not
  callable, \<^verbatim>\<open>valueOf\<close> does not give a primitive either, and the coercion throws.
\<close>

fun to_string :: "js_env \<Rightarrow> jsval \<Rightarrow> jsstr js" and join_rest :: "js_env \<Rightarrow> jsval list \<Rightarrow> jsstr js" where
  "to_string env JUndefined = Inr (lit ''undefined'')"
| "to_string env JNull = Inr (lit ''null'')"
| "to_string env (JBool b) = Inr (lit (if b then ''true'' else ''false''))"
| "to_string env (JNum n) = Inr (num_string env n)"
| "to_string env (JStr s) = Inr s"
| "to_string env (JArr xs) =
     (case xs of [] \<Rightarrow> Inr []
      | y # ys \<Rightarrow> rbind (if y = JNull \<or> y = JUndefined then Inr [] else to_string env y) (\<lambda>s.
          rbind (join_rest env ys) (\<lambda>t. Inr (s @ t))))"
| "to_string env (JObj ps) =
     (if map_of ps (lit ''toString'') \<noteq> None then Inl TypeError else Inr (lit ''[object Object]''))"
| "join_rest env [] = Inr []"
| "join_rest env (y # ys) =
     rbind (if y = JNull \<or> y = JUndefined then Inr [] else to_string env y) (\<lambda>s.
       rbind (join_rest env ys) (\<lambda>t. Inr (lit '','' @ s @ t)))"

section \<open>Regular expressions\<close>

text \<open>The expressions that the scripts test are anchored at both ends, so a test is a full match.\<close>

datatype regex = RZero | REps | RClass "nat \<Rightarrow> bool" | RAlt regex regex | RSeq regex regex | RStar regex

primrec nullable :: "regex \<Rightarrow> bool" where
  "nullable RZero = False"
| "nullable REps = True"
| "nullable (RClass _) = False"
| "nullable (RAlt r s) = (nullable r \<or> nullable s)"
| "nullable (RSeq r s) = (nullable r \<and> nullable s)"
| "nullable (RStar _) = True"

fun mk_seq :: "regex \<Rightarrow> regex \<Rightarrow> regex" where
  "mk_seq RZero s = RZero"
| "mk_seq REps s = s"
| "mk_seq r s = RSeq r s"

fun mk_alt :: "regex \<Rightarrow> regex \<Rightarrow> regex" where
  "mk_alt RZero s = s"
| "mk_alt r RZero = r"
| "mk_alt r s = RAlt r s"

primrec deriv :: "nat \<Rightarrow> regex \<Rightarrow> regex" where
  "deriv c RZero = RZero"
| "deriv c REps = RZero"
| "deriv c (RClass P) = (if P c then REps else RZero)"
| "deriv c (RAlt r s) = mk_alt (deriv c r) (deriv c s)"
| "deriv c (RSeq r s) = (if nullable r then mk_alt (mk_seq (deriv c r) s) (deriv c s) else mk_seq (deriv c r) s)"
| "deriv c (RStar r) = mk_seq (deriv c r) (RStar r)"

primrec re_test :: "regex \<Rightarrow> jsstr \<Rightarrow> bool" where
  "re_test r [] = nullable r"
| "re_test r (c # cs) = re_test (deriv c r) cs"

primrec re_rep :: "regex \<Rightarrow> nat \<Rightarrow> regex" where
  "re_rep r 0 = REps"
| "re_rep r (Suc n) = RSeq r (re_rep r n)"

text \<open>\<open>re_upto r n\<close> is at most \<open>n\<close> repetitions, so \<^verbatim>\<open>r{1,n}\<close> is \<open>RSeq r (re_upto r (n - 1))\<close>.\<close>

primrec re_upto :: "regex \<Rightarrow> nat \<Rightarrow> regex" where
  "re_upto r 0 = REps"
| "re_upto r (Suc n) = RAlt REps (RSeq r (re_upto r n))"

lemma re_rep_numeral [simp]: "re_rep r (numeral k) = RSeq r (re_rep r (pred_numeral k))"
  by (simp add: numeral_eq_Suc)

lemma re_upto_numeral [simp]: "re_upto r (numeral k) = RAlt REps (RSeq r (re_upto r (pred_numeral k)))"
  by (simp add: numeral_eq_Suc)

definition re_lit :: "string \<Rightarrow> regex" where
  "re_lit s = foldr (\<lambda>c r. RSeq (RClass ((=) (of_char c))) r) s REps"

definition is_digit :: "nat \<Rightarrow> bool" where
  "is_digit c \<longleftrightarrow> 48 \<le> c \<and> c \<le> 57"

definition is_lower :: "nat \<Rightarrow> bool" where
  "is_lower c \<longleftrightarrow> 97 \<le> c \<and> c \<le> 122"

definition is_upper :: "nat \<Rightarrow> bool" where
  "is_upper c \<longleftrightarrow> 65 \<le> c \<and> c \<le> 90"

text \<open>The class \<^verbatim>\<open>[a-f0-9]\<close> under the \<^verbatim>\<open>i\<close> flag, which for these letters adds only \<^verbatim>\<open>A-F\<close>.\<close>

definition is_hex :: "nat \<Rightarrow> bool" where
  "is_hex c \<longleftrightarrow> is_digit c \<or> 97 \<le> c \<and> c \<le> 102 \<or> 65 \<le> c \<and> c \<le> 70"

primrec lang :: "regex \<Rightarrow> jsstr set" where
  "lang RZero = {}"
| "lang REps = {[]}"
| "lang (RClass P) = {[c] | c. P c}"
| "lang (RAlt r s) = lang r \<union> lang s"
| "lang (RSeq r s) = {u @ v | u v. u \<in> lang r \<and> v \<in> lang s}"
| "lang (RStar r) = {concat ws | ws. set ws \<subseteq> lang r}"

lemma mk_seq_lang [simp]: "lang (mk_seq r s) = lang (RSeq r s)"
  by (cases r) auto

lemma mk_alt_lang [simp]: "lang (mk_alt r s) = lang (RAlt r s)"
  by (cases r; cases s) auto

lemma nullable_lang: "nullable r \<longleftrightarrow> [] \<in> lang r"
proof (induction r)
  case (RStar r)
  show ?case by (auto intro!: exI [of _ "[]"])
qed auto

lemma star_Cons:
  "c # w \<in> lang (RStar r) \<longleftrightarrow> (\<exists>u v. w = u @ v \<and> c # u \<in> lang r \<and> v \<in> lang (RStar r))"
proof
  assume "c # w \<in> lang (RStar r)"
  then obtain ws where "c # w = concat ws" "set ws \<subseteq> lang r" by auto
  then show "\<exists>u v. w = u @ v \<and> c # u \<in> lang r \<and> v \<in> lang (RStar r)"
  proof (induction ws)
    case (Cons x ws)
    then show ?case by (cases x) auto
  qed simp
next
  assume "\<exists>u v. w = u @ v \<and> c # u \<in> lang r \<and> v \<in> lang (RStar r)"
  then obtain u ws where "w = u @ concat ws" "c # u \<in> lang r" "set ws \<subseteq> lang r" by auto
  then have "c # w = concat ((c # u) # ws)" "set ((c # u) # ws) \<subseteq> lang r" by simp_all
  then show "c # w \<in> lang (RStar r)" unfolding lang.simps by blast
qed

lemma deriv_lang: "w \<in> lang (deriv c r) \<longleftrightarrow> c # w \<in> lang r"
proof (induction r arbitrary: w)
  case (RSeq r s)
  have "c # w \<in> lang (RSeq r s) \<longleftrightarrow>
      ([] \<in> lang r \<and> c # w \<in> lang s) \<or> (\<exists>u v. w = u @ v \<and> c # u \<in> lang r \<and> v \<in> lang s)"
    by (auto simp: Cons_eq_append_conv)
  then show ?case using RSeq by (auto simp: nullable_lang)
next
  case (RStar r)
  have "w \<in> lang (deriv c (RStar r)) \<longleftrightarrow> (\<exists>u v. w = u @ v \<and> u \<in> lang (deriv c r) \<and> v \<in> lang (RStar r))"
    unfolding deriv.simps mk_seq_lang lang.simps(5) by blast
  then show ?case unfolding star_Cons RStar .
qed auto

lemma re_test_lang: "re_test r w \<longleftrightarrow> w \<in> lang r"
  by (induction w arbitrary: r) (simp_all add: nullable_lang deriv_lang)

lemma lang_class_Cons: "w \<in> lang (RSeq (RClass P) r) \<longleftrightarrow> (\<exists>c v. w = c # v \<and> P c \<and> v \<in> lang r)"
  by auto (metis append_Cons append_Nil)

lemma lang_re_rep_class: "w \<in> lang (re_rep (RClass P) n) \<longleftrightarrow> length w = n \<and> list_all P w"
proof (induction n arbitrary: w)
  case (Suc n)
  show ?case unfolding re_rep.simps lang_class_Cons Suc by (cases w) auto
qed auto

lemma lang_re_upto_class: "w \<in> lang (re_upto (RClass P) n) \<longleftrightarrow> length w \<le> n \<and> list_all P w"
proof (induction n arbitrary: w)
  case (Suc n)
  have "w \<in> lang (re_upto (RClass P) (Suc n)) \<longleftrightarrow> w = [] \<or> w \<in> lang (RSeq (RClass P) (re_upto (RClass P) n))"
    by simp
  then show ?case unfolding lang_class_Cons Suc by (cases w) auto
qed auto

lemma lang_re_lit: "w \<in> lang (re_lit s) \<longleftrightarrow> w = lit s"
proof (induction s arbitrary: w)
  case (Cons c s)
  have "re_lit (c # s) = RSeq (RClass ((=) (of_char c))) (re_lit s)" by (simp add: re_lit_def)
  then show ?case using Cons by (simp only: lang_class_Cons) (auto simp: lit_def)
qed (simp add: re_lit_def lit_def)

lemma lang_star_class: "w \<in> lang (RStar (RClass P)) \<longleftrightarrow> list_all P w"
proof (induction w)
  case Nil
  show ?case by (auto intro: exI [of _ "[]"])
next
  case (Cons c w)
  show ?case unfolding star_Cons using Cons by auto
qed

section \<open>Integers are exact\<close>

lemma pow2_add: "pow2 (a + b) = pow2 a * pow2 b"
  by (simp add: pow2_def power_int_add)

lemma pow2_pos [simp]: "0 < pow2 e"
  by (simp add: pow2_def)

lemma pow2_nat: "0 \<le> e \<Longrightarrow> pow2 e = 2 ^ nat e"
  by (simp add: pow2_def power_int_def)

lemma pow2_mono: "a \<le> b \<Longrightarrow> pow2 a \<le> pow2 b"
  by (simp add: pow2_def power_int_increasing)

lemma pow2_diff: "pow2 (a - b) = pow2 a / pow2 b"
  using pow2_add [of "a - b" b] by (simp add: field_simps pow2_def)

lemma bitlen_rat_bounds:
  assumes "0 < n"
  shows "pow2 (bitlen n - 1) \<le> of_int n" "of_int n < pow2 (bitlen n)"
proof -
  have b: "2 ^ nat (bitlen n - 1) \<le> n" "n < 2 ^ nat (bitlen n)" using bitlen_bounds [OF assms] by simp_all
  have p: "0 < bitlen n" using bitlen_nonneg [of n] bitlen_eq_zero_iff [of n] assms by linarith
  have "(of_int (2 ^ nat (bitlen n - 1)) :: rat) \<le> of_int n" using b(1) by (simp only: of_int_le_iff)
  then show "pow2 (bitlen n - 1) \<le> of_int n" using p by (simp add: pow2_nat)
  have "(of_int n :: rat) < of_int (2 ^ nat (bitlen n))" using b(2) by (simp only: of_int_less_iff)
  then show "of_int n < pow2 (bitlen n)" using p by (simp add: pow2_nat)
qed

lemma log2_floor_spec:
  assumes "0 < q"
  shows "pow2 (log2_floor q) \<le> q" "q < pow2 (log2_floor q + 1)"
proof -
  obtain n d where nd: "quotient_of q = (n, d)" by fastforce
  have d: "0 < d" using quotient_of_denom_pos [OF nd] .
  have q: "q = of_int n / of_int d" using quotient_of_div [OF nd] .
  have n: "0 < n" using assms q d by (simp add: zero_less_divide_iff)
  let ?k = "bitlen n - bitlen d"
  have "pow2 (?k - 1) = pow2 (bitlen n - 1) / pow2 (bitlen d)" by (simp add: pow2_diff [symmetric] algebra_simps)
  also have "\<dots> \<le> q" unfolding q using bitlen_rat_bounds [OF n] bitlen_rat_bounds [OF d] d n
    by (intro frac_le) (simp_all add: less_imp_le)
  finally have lo: "pow2 (?k - 1) \<le> q" .
  have "q < pow2 (bitlen n) / pow2 (bitlen d - 1)" unfolding q using bitlen_rat_bounds [OF n] bitlen_rat_bounds [OF d] d n
    by (intro frac_less) (simp_all add: less_imp_le)
  also have "\<dots> = pow2 (?k + 1)" by (simp add: pow2_diff [symmetric] algebra_simps)
  finally have hi: "q < pow2 (?k + 1)" .
  show "pow2 (log2_floor q) \<le> q" "q < pow2 (log2_floor q + 1)"
    using lo hi nd by (auto simp: log2_floor_def Let_def)
qed

lemma round_half_even_int [simp]: "round_half_even (of_int n) = n"
  by (simp add: round_half_even_def)

lemma round_half_even_ge: "of_int m \<le> x \<Longrightarrow> m \<le> round_half_even x"
proof -
  assume "of_int m \<le> x"
  then have "m \<le> \<lfloor>x\<rfloor>" by (simp add: le_floor_iff)
  then show ?thesis by (simp add: round_half_even_def Let_def)
qed

lemma log2_floor_le:
  assumes "0 < q" "q < pow2 (k + 1)"
  shows "log2_floor q \<le> k"
proof (rule ccontr)
  assume "\<not> log2_floor q \<le> k"
  then have "pow2 (k + 1) \<le> pow2 (log2_floor q)" by (intro pow2_mono) simp
  then show False using log2_floor_spec(1) [OF assms(1)] assms(2) by simp
qed

lemma log2_floor_ge:
  assumes "pow2 k \<le> q"
  shows "k \<le> log2_floor q"
proof (rule ccontr)
  have q: "0 < q" using assms pow2_pos [of k] by linarith
  assume "\<not> k \<le> log2_floor q"
  then have "pow2 (log2_floor q + 1) \<le> pow2 k" by (intro pow2_mono) simp
  then show False using log2_floor_spec(2) [OF q] assms by simp
qed

lemma round_pos_int:
  assumes "0 < n" "n < 2 ^ 53"
  shows "round_pos (of_int n) = of_int n"
proof -
  let ?q = "of_int n :: rat"
  have q: "0 < ?q" using assms(1) by simp
  have "?q < of_int (2 ^ 53)" using assms(2) by (simp only: of_int_less_iff)
  then have "log2_floor ?q \<le> 52" using q by (intro log2_floor_le) (simp_all add: pow2_nat)
  moreover have "0 \<le> log2_floor ?q" using assms(1) by (intro log2_floor_ge) (simp add: pow2_nat)
  ultimately have "\<exists>m. max (- 1074) (log2_floor ?q - 52) = - int m"
    by (intro exI [of _ "nat (52 - log2_floor ?q)"]) simp
  then obtain m where m: "max (- 1074) (log2_floor ?q - 52) = - int m" ..
  have "?q / pow2 (- int m) = of_int (n * 2 ^ m)"
    by (simp add: pow2_def power_int_minus divide_inverse)
  then have "round_pos ?q = of_int (n * 2 ^ m) * pow2 (- int m)"
    unfolding round_pos_def Let_def m by (simp only: round_half_even_int)
  then show ?thesis by (simp add: pow2_def power_int_minus)
qed

lemma round_pos_big:
  assumes "2 ^ 53 \<le> q"
  shows "2 ^ 53 \<le> round_pos q"
proof -
  let ?l = "log2_floor q"
  have q: "0 < q" using assms by (auto intro: less_le_trans)
  have l: "53 \<le> ?l" using assms by (intro log2_floor_ge) (simp add: pow2_nat)
  then have e: "max (- 1074) (?l - 52) = ?l - 52" by simp
  have "of_int (2 ^ 52) = pow2 ?l / pow2 (?l - 52)" by (simp add: pow2_diff [symmetric] pow2_nat)
  also have "\<dots> \<le> q / pow2 (?l - 52)" by (rule divide_right_mono [OF log2_floor_spec(1) [OF q] less_imp_le [OF pow2_pos]])
  finally have "2 ^ 52 \<le> round_half_even (q / pow2 (?l - 52))" by (rule round_half_even_ge)
  then have "of_int (2 ^ 52) \<le> (of_int (round_half_even (q / pow2 (?l - 52))) :: rat)" by (simp only: of_int_le_iff)
  then have "of_int (2 ^ 52) * pow2 (?l - 52) \<le> round_pos q"
    unfolding round_pos_def Let_def e by (intro mult_right_mono) (simp_all add: less_imp_le)
  moreover have "of_int (2 ^ 52) * pow2 (?l - 52) = pow2 ?l"
    using pow2_add [of 52 "?l - 52"] by (simp add: pow2_nat)
  moreover have "2 ^ 53 \<le> pow2 ?l" using pow2_mono [OF l] by (simp add: pow2_nat)
  ultimately show ?thesis by simp
qed

lemma round_double_int [simp]: "\<bar>n\<bar> < 2 ^ 53 \<Longrightarrow> round_double (of_int n) = Fin (of_int n)"
  using round_pos_int [of "\<bar>n\<bar>"] by (auto simp: round_double_def Let_def)

end
