(* ===== verification/JS_Text.thy ===== *)
theory JS_Text
  imports JS_Value
begin

text \<open>
  The text formats of the standard library that the scripts under \<^verbatim>\<open>src/site\<close> read: the decimal
  numbers of \<^verbatim>\<open>Number(string)\<close>, the streaming fatal UTF-8 decoder of \<^verbatim>\<open>TextDecoder\<close>, \<^verbatim>\<open>JSON.parse\<close>,
  and \<^verbatim>\<open>Date.parse\<close> on the date-time interchange format in UTC.

  The lemmas show that the fuel of the JSON parser is enough for every text, and that decoding
  a stream does not depend on how its bytes were cut into chunks.
\<close>

section \<open>Numbers\<close>

definition js_space :: "nat \<Rightarrow> bool" where
  "js_space c \<longleftrightarrow> c \<in> {9, 10, 11, 12, 13, 32, 160, 5760, 8232, 8233, 8239, 8287, 12288, 65279} \<or>
     (8192 \<le> c \<and> c \<le> 8202)"

definition trim :: "jsstr \<Rightarrow> jsstr" where
  "trim s = rev (dropWhile js_space (rev (dropWhile js_space s)))"

definition dec_val :: "jsstr \<Rightarrow> nat" where
  "dec_val ds = foldl (\<lambda>a d. 10 * a + (d - 48)) 0 ds"

definition decimal :: "jsstr \<Rightarrow> jsstr \<Rightarrow> int \<Rightarrow> rat" where
  "decimal i f e = of_nat (dec_val (i @ f)) * 10 powi (e - int (length f))"

text \<open>An optional exponent part: its value and the rest, \<open>None\<close> when it is malformed.\<close>

definition exponent :: "jsstr \<Rightarrow> (int \<times> jsstr) option" where
  "exponent s = (case s of
     c # t \<Rightarrow> (if c = 101 \<or> c = 69 then
        (let (neg, u) = (case t of x # y \<Rightarrow> if x = 45 then (True, y) else if x = 43 then (False, y) else (False, t)
                         | [] \<Rightarrow> (False, t));
             ds = takeWhile is_digit u in
         if ds = [] then None
         else Some ((if neg then - int (dec_val ds) else int (dec_val ds)), dropWhile is_digit u))
       else Some (0, s))
   | [] \<Rightarrow> Some (0, s))"

definition digit_of :: "nat \<Rightarrow> nat option" where
  "digit_of c = (if is_digit c then Some (c - 48) else if 97 \<le> c \<and> c \<le> 102 then Some (c - 87)
     else if 65 \<le> c \<and> c \<le> 70 then Some (c - 55) else None)"

definition radix_val :: "nat \<Rightarrow> jsstr \<Rightarrow> nat option" where
  "radix_val r ds = (if ds = [] then None else foldl (\<lambda>a c. case (a, digit_of c) of
     (Some x, Some d) \<Rightarrow> if d < r then Some (r * x + d) else None | _ \<Rightarrow> None) (Some 0) ds)"

definition unsigned_decimal :: "jsstr \<Rightarrow> rat option" where
  "unsigned_decimal s =
     (let i = takeWhile is_digit s; r = dropWhile is_digit s;
          (f, r') = (case r of c # t \<Rightarrow> if c = 46 then (takeWhile is_digit t, dropWhile is_digit t) else ([], r)
                     | [] \<Rightarrow> ([], r)) in
      if i = [] \<and> f = [] then None
      else case exponent r' of Some (e, []) \<Rightarrow> Some (decimal i f e) | _ \<Rightarrow> None)"

text \<open>\<^verbatim>\<open>Number(s)\<close> of a string.\<close>

definition radix_prefix :: "jsstr \<Rightarrow> nat option" where
  "radix_prefix s = map_of [(lit ''0x'', 16), (lit ''0X'', 16), (lit ''0o'', 8), (lit ''0O'', 8),
     (lit ''0b'', 2), (lit ''0B'', 2)] (take 2 s)"

definition string_to_number :: "jsstr \<Rightarrow> jsnum" where
  "string_to_number str =
     (case trim str of [] \<Rightarrow> Fin 0
      | c # t \<Rightarrow>
        (case radix_prefix (c # t) of
           Some r \<Rightarrow> (case radix_val r (drop 2 (c # t)) of Some n \<Rightarrow> round_double (of_nat n) | None \<Rightarrow> NaN)
         | None \<Rightarrow>
             (let (neg, u) = (if c = 45 then (True, t) else if c = 43 then (False, t) else (False, c # t)) in
              if u = lit ''Infinity'' then Infinity neg
              else case unsigned_decimal u of Some q \<Rightarrow> round_double (if neg then - q else q) | None \<Rightarrow> NaN)))"

section \<open>UTF-8\<close>

record utf8 =
  code_point :: nat
  bytes_needed :: nat
  lower_bound :: nat
  upper_bound :: nat
  bom_seen :: bool

definition utf8_start :: utf8 where
  "utf8_start = \<lparr>code_point = 0, bytes_needed = 0, lower_bound = 0x80, upper_bound = 0xBF, bom_seen = False\<rparr>"

text \<open>A code point as UTF-16 code units; the first one is dropped when it is the byte order mark.\<close>

definition utf16 :: "nat \<Rightarrow> jsstr" where
  "utf16 cp = (if cp < 0x10000 then [cp]
     else [0xD800 + (cp - 0x10000) div 0x400, 0xDC00 + (cp - 0x10000) mod 0x400])"

definition emit :: "utf8 \<Rightarrow> nat \<Rightarrow> utf8 \<times> jsstr" where
  "emit d cp = (d\<lparr>code_point := 0, bytes_needed := 0, lower_bound := 0x80, upper_bound := 0xBF, bom_seen := True\<rparr>,
     if \<not> bom_seen d \<and> cp = 0xFEFF then [] else utf16 cp)"

definition utf8_byte :: "utf8 \<Rightarrow> nat \<Rightarrow> (utf8 \<times> jsstr) js" where
  "utf8_byte d b =
     (if bytes_needed d = 0 then
        (if b \<le> 0x7F then Inr (emit d b)
         else if 0xC2 \<le> b \<and> b \<le> 0xDF then Inr (d\<lparr>bytes_needed := 1, code_point := b - 0xC0\<rparr>, [])
         else if 0xE0 \<le> b \<and> b \<le> 0xEF then
           Inr (d\<lparr>bytes_needed := 2, code_point := b - 0xE0,
                  lower_bound := (if b = 0xE0 then 0xA0 else 0x80),
                  upper_bound := (if b = 0xED then 0x9F else 0xBF)\<rparr>, [])
         else if 0xF0 \<le> b \<and> b \<le> 0xF4 then
           Inr (d\<lparr>bytes_needed := 3, code_point := b - 0xF0,
                  lower_bound := (if b = 0xF0 then 0x90 else 0x80),
                  upper_bound := (if b = 0xF4 then 0x8F else 0xBF)\<rparr>, [])
         else Inl TypeError)
      else if b < lower_bound d \<or> upper_bound d < b then Inl TypeError
      else
        let cp = code_point d * 64 + (b - 0x80) in
        if bytes_needed d = 1 then Inr (emit d cp)
        else Inr (d\<lparr>code_point := cp, bytes_needed := bytes_needed d - 1, lower_bound := 0x80, upper_bound := 0xBF\<rparr>, []))"

fun decode_stream :: "utf8 \<Rightarrow> nat list \<Rightarrow> (utf8 \<times> jsstr) js" where
  "decode_stream d [] = Inr (d, [])"
| "decode_stream d (b # bs) =
     rbind (utf8_byte d b) (\<lambda>(d', s). rbind (decode_stream d' bs) (\<lambda>(d'', t). Inr (d'', s @ t)))"

definition decode_flush :: "utf8 \<Rightarrow> jsstr js" where
  "decode_flush d = (if bytes_needed d \<noteq> 0 then Inl TypeError else Inr [])"

definition utf8_decode :: "nat list \<Rightarrow> jsstr js" where
  "utf8_decode bs = rbind (decode_stream utf8_start bs) (\<lambda>(d, s). rbind (decode_flush d) (\<lambda>t. Inr (s @ t)))"

section \<open>JSON\<close>

definition skip_ws :: "jsstr \<Rightarrow> jsstr" where
  "skip_ws s = dropWhile (\<lambda>c. c \<in> {9, 10, 13, 32}) s"

definition json_escape :: "nat \<Rightarrow> nat option" where
  "json_escape c = map_of [(34, 34), (92, 92), (47, 47), (98, 8), (102, 12), (110, 10), (114, 13), (116, 9)] c"

fun json_chars :: "jsstr \<Rightarrow> (jsstr \<times> jsstr) option" where
  "json_chars [] = None"
| "json_chars (c # s) =
     (if c = 34 then Some ([], s)
      else if c < 32 then None
      else if c = 92 then
        (case s of [] \<Rightarrow> None
         | e # t \<Rightarrow>
             if e = 117 then
               (case t of h1 # h2 # h3 # h4 # u \<Rightarrow>
                  (case radix_val 16 [h1, h2, h3, h4] of None \<Rightarrow> None
                   | Some x \<Rightarrow> map_option (apfst ((#) x)) (json_chars u))
                | _ \<Rightarrow> None)
             else (case json_escape e of None \<Rightarrow> None
                   | Some x \<Rightarrow> map_option (apfst ((#) x)) (json_chars t)))
      else map_option (apfst ((#) c)) (json_chars s))"

definition json_number :: "jsstr \<Rightarrow> (jsval \<times> jsstr) option" where
  "json_number s =
     (let (neg, t) = (case s of c # u \<Rightarrow> if c = 45 then (True, u) else (False, s) | [] \<Rightarrow> (False, s));
          i = takeWhile is_digit t; r = dropWhile is_digit t in
      if i = [] \<or> (length i > 1 \<and> hd i = 48) then None
      else
        case (case r of c # u \<Rightarrow> if c = 46 then (if takeWhile is_digit u = [] then None
                 else Some (takeWhile is_digit u, dropWhile is_digit u)) else Some ([], r)
              | [] \<Rightarrow> Some ([], r)) of
          None \<Rightarrow> None
        | Some (f, r') \<Rightarrow>
            (case exponent r' of None \<Rightarrow> None
             | Some (e, r'') \<Rightarrow> Some (JNum (round_double (if neg then - decimal i f e else decimal i f e)), r'')))"

definition json_word :: "string \<Rightarrow> jsval \<Rightarrow> jsstr \<Rightarrow> (jsval \<times> jsstr) option" where
  "json_word w v s = (if take (length w) s = lit w then Some (v, drop (length w) s) else None)"

text \<open>A member whose name occurred before replaces the earlier value.\<close>

fun put :: "(jsstr \<times> jsval) list \<Rightarrow> jsstr \<Rightarrow> jsval \<Rightarrow> (jsstr \<times> jsval) list" where
  "put [] k v = [(k, v)]"
| "put ((k', v') # ps) k v = (if k' = k then (k, v) # ps else (k', v') # put ps k v)"

fun json_value :: "nat \<Rightarrow> jsstr \<Rightarrow> (jsval \<times> jsstr) option"
  and json_elems :: "nat \<Rightarrow> jsstr \<Rightarrow> (jsval list \<times> jsstr) option"
  and json_members :: "nat \<Rightarrow> (jsstr \<times> jsval) list \<Rightarrow> jsstr \<Rightarrow> ((jsstr \<times> jsval) list \<times> jsstr) option" where
  "json_value 0 s = None"
| "json_value (Suc n) s =
     (case skip_ws s of [] \<Rightarrow> None
      | c # t \<Rightarrow>
          if c = 123 then
            (if take 1 (skip_ws t) = [125] then Some (JObj [], drop 1 (skip_ws t))
             else map_option (apfst JObj) (json_members n [] t))
          else if c = 91 then
            (if take 1 (skip_ws t) = [93] then Some (JArr [], drop 1 (skip_ws t))
             else map_option (apfst JArr) (json_elems n t))
          else if c = 34 then map_option (apfst JStr) (json_chars t)
          else if c = 116 then json_word ''true'' (JBool True) (c # t)
          else if c = 102 then json_word ''false'' (JBool False) (c # t)
          else if c = 110 then json_word ''null'' JNull (c # t)
          else json_number (c # t))"
| "json_elems 0 s = None"
| "json_elems (Suc n) s =
     (case json_value n s of None \<Rightarrow> None
      | Some (v, r) \<Rightarrow>
          (case skip_ws r of [] \<Rightarrow> None
           | c # t \<Rightarrow> if c = 44 then map_option (apfst ((#) v)) (json_elems n t)
                    else if c = 93 then Some ([v], t) else None))"
| "json_members 0 ps s = None"
| "json_members (Suc n) ps s =
     (case skip_ws s of [] \<Rightarrow> None
      | q # t \<Rightarrow>
          if q \<noteq> 34 then None
          else (case json_chars t of None \<Rightarrow> None
           | Some (k, r) \<Rightarrow>
               (case skip_ws r of [] \<Rightarrow> None
                | c # u \<Rightarrow>
                    if c \<noteq> 58 then None
                    else (case json_value n u of None \<Rightarrow> None
                     | Some (v, r') \<Rightarrow>
                         (case skip_ws r' of [] \<Rightarrow> None
                          | e # w \<Rightarrow> if e = 44 then json_members n (put ps k v) w
                                   else if e = 125 then Some (put ps k v, w) else None)))))"

text \<open>The equations of the parser at a numeral, for evaluation.\<close>

lemmas json_numeral = json_value.simps(2) [of "pred_numeral k", folded numeral_eq_Suc]
  json_members.simps(2) [of "pred_numeral k", folded numeral_eq_Suc] for k

definition JSON_parse :: "jsstr \<Rightarrow> jsval js" where
  "JSON_parse s =
     (case json_value (2 * length s + 1) s of None \<Rightarrow> Inl SyntaxError
      | Some (v, r) \<Rightarrow> if skip_ws r = [] then Inr v else Inl SyntaxError)"

section \<open>Dates\<close>

definition leap :: "int \<Rightarrow> bool" where
  "leap y \<longleftrightarrow> y mod 4 = 0 \<and> (y mod 100 \<noteq> 0 \<or> y mod 400 = 0)"

definition day_from_year :: "int \<Rightarrow> int" where
  "day_from_year y = 365 * (y - 1970) + (y - 1969) div 4 - (y - 1901) div 100 + (y - 1601) div 400"

definition days_in_month :: "int \<Rightarrow> nat \<Rightarrow> int" where
  "days_in_month y m = (if m = 2 then (if leap y then 29 else 28) else if m \<in> {4, 6, 9, 11} then 30 else 31)"

definition make_day :: "int \<Rightarrow> nat \<Rightarrow> int \<Rightarrow> int" where
  "make_day y m d = day_from_year y + sum_list (map (days_in_month y) [1..<m]) + d - 1"

text \<open>\<^verbatim>\<open>YYYY-MM-DDTHH:mm:ss\<close> with an optional \<^verbatim>\<open>.sss\<close> and the letter \<^verbatim>\<open>Z\<close>.\<close>

definition iso_re :: regex where
  "iso_re = foldr RSeq
     [re_rep (RClass is_digit) 4, re_lit ''-'', re_rep (RClass is_digit) 2, re_lit ''-'', re_rep (RClass is_digit) 2,
      re_lit ''T'', re_rep (RClass is_digit) 2, re_lit '':'', re_rep (RClass is_digit) 2, re_lit '':'',
      re_rep (RClass is_digit) 2, RAlt REps (RSeq (re_lit ''.'') (re_rep (RClass is_digit) 3))] (re_lit ''Z'')"

definition field :: "jsstr \<Rightarrow> nat \<Rightarrow> nat \<Rightarrow> nat" where
  "field s i n = dec_val (take n (drop i s))"

definition iso_utc :: "jsstr \<Rightarrow> int option" where
  "iso_utc s =
     (let y = int (field s 0 4); mo = field s 5 2; d = int (field s 8 2);
          h = int (field s 11 2); mi = int (field s 14 2); sec = int (field s 17 2);
          ms = (if length s = 24 then int (field s 20 3) else 0) in
      if re_test iso_re s \<and> 1 \<le> mo \<and> mo \<le> 12 \<and> 1 \<le> d \<and> d \<le> days_in_month y mo \<and>
         (h \<le> 23 \<and> mi \<le> 59 \<and> sec \<le> 59 \<or> h = 24 \<and> mi = 0 \<and> sec = 0 \<and> ms = 0)
      then Some (make_day y mo d * 86400000 + h * 3600000 + mi * 60000 + sec * 1000 + ms)
      else None)"

definition Date_parse :: "js_env \<Rightarrow> jsstr \<Rightarrow> jsnum" where
  "Date_parse env s = (case iso_utc s of Some t \<Rightarrow> Fin (of_int t) | None \<Rightarrow> date_other env s)"

text \<open>\<^verbatim>\<open>new Date(value)\<close>: the time value, \<open>None\<close> for an invalid date. Times beyond the range of dates are invalid.\<close>

definition time_clip :: "jsnum \<Rightarrow> int option" where
  "time_clip n = (case n of Fin q \<Rightarrow> if \<bar>q\<bar> \<le> 8640000000000000
       then Some (if 0 \<le> q then \<lfloor>q\<rfloor> else \<lceil>q\<rceil>) else None | _ \<Rightarrow> None)"

definition new_date :: "js_env \<Rightarrow> jsval \<Rightarrow> int option js" where
  "new_date env v =
     (case v of JUndefined \<Rightarrow> Inr None
      | JNull \<Rightarrow> Inr (Some 0)
      | JBool b \<Rightarrow> Inr (Some (if b then 1 else 0))
      | JNum n \<Rightarrow> Inr (time_clip n)
      | _ \<Rightarrow> rbind (to_string env v) (\<lambda>s. Inr (time_clip (Date_parse env s))))"

section \<open>Decoding does not depend on the chunks\<close>

lemma decode_stream_append:
  "decode_stream d (xs @ ys) = rbind (decode_stream d xs) (\<lambda>(d', s). rbind (decode_stream d' ys) (\<lambda>(d'', t). Inr (d'', s @ t)))"
proof (induction xs arbitrary: d)
  case Nil
  show ?case by (cases "decode_stream d ys") auto
next
  case (Cons x xs)
  show ?case
  proof (cases "utf8_byte d x")
    case (Inr r)
    obtain d' s where r: "r = (d', s)" by fastforce
    show ?thesis
    proof (cases "decode_stream d' xs")
      case (Inr p)
      obtain d2 s2 where "p = (d2, s2)" by fastforce
      then show ?thesis using Cons [of d'] Inr \<open>utf8_byte d x = Inr r\<close> r
        by (cases "decode_stream d2 ys") auto
    qed (use Cons [of d'] Inr r in auto)
  qed simp
qed

section \<open>The fuel of the parser is enough\<close>

lemma skip_ws_le: "length (skip_ws s) \<le> length s"
  by (simp add: skip_ws_def length_dropWhile_le)

lemma skip_ws_Cons: "skip_ws s = c # t \<Longrightarrow> length t < length s"
  using skip_ws_le [of s] by simp

lemma json_chars_less: "json_chars s = Some (x, r) \<Longrightarrow> length r < length s"
proof (induction "length s" arbitrary: s x r rule: less_induct)
  case less
  have ih: "length t < length s \<Longrightarrow> json_chars t = Some (y, r) \<Longrightarrow> length r < length s" for t y
    using less.hyps [of t y r] by simp
  show ?case using less.prems
    by (cases s) (auto simp: apfst_def map_prod_def split: if_splits list.splits option.splits dest!: ih [rotated])
qed

lemma exponent_le:
  assumes "exponent s = Some (e, r)"
  shows "length r \<le> length s"
  using assms length_dropWhile_le [of is_digit] by (auto simp: exponent_def Let_def split: list.splits if_splits intro: le_SucI)

lemma json_number_less:
  assumes "json_number s = Some (v, r)"
  shows "length r < length s"
proof -
  obtain neg t where nt: "(neg, t) = (case s of c # u \<Rightarrow> if c = 45 then (True, u) else (False, s) | [] \<Rightarrow> (False, s))"
    by (metis surj_pair)
  have le: "length t \<le> length s" using nt by (auto split: list.splits if_splits)
  have len: "length (takeWhile is_digit t) + length (dropWhile is_digit t) = length t"
    by (metis length_append takeWhile_dropWhile_id)
  have "takeWhile is_digit t \<noteq> [] \<and> length r \<le> length (dropWhile is_digit t)"
    using assms unfolding json_number_def Let_def nt [symmetric]
    by (auto dest!: exponent_le split: if_splits option.splits list.splits
        intro: order.trans [OF _ le_SucI [OF length_dropWhile_le]])
  then show ?thesis using le len by (cases "takeWhile is_digit t") auto
qed

lemma json_word_less: "json_word w v s = Some (x, r) \<Longrightarrow> w \<noteq> [] \<Longrightarrow> length r < length s"
proof -
  assume a: "json_word w v s = Some (x, r)" "w \<noteq> []"
  then have t: "take (length w) s = lit w" "r = drop (length w) s" by (auto simp: json_word_def split: if_splits)
  have "s \<noteq> []" using t(1) a(2) by (auto simp: lit_def)
  then show ?thesis using t(2) a(2) by (cases w; cases s) auto
qed

lemma json_less:
  "json_value n s = Some (v, r) \<Longrightarrow> length r < length s"
  "json_elems n s = Some (vs, r) \<Longrightarrow> length r < length s"
  "json_members n ps s = Some (qs, r) \<Longrightarrow> length r < length s"
proof (induction n s and n s and n ps s arbitrary: v r and vs r and qs r rule: json_value_json_elems_json_members.induct)
  case (2 n s)
  show ?case
  proof (cases "skip_ws s")
    case (Cons c t)
    have t: "length (c # t) \<le> length s" using skip_ws_le [of s] Cons by simp
    have d: "length (drop 1 (skip_ws t)) \<le> length t" using skip_ws_le [of t] by simp
    show ?thesis using 2(3) Cons t d json_word_less [of _ _ "c # t" v r] json_number_less [of "c # t" v r]
        json_chars_less [of t] 2(1,2) [OF Cons]
      by (fastforce split: if_splits)
  qed (use 2(3) in simp)
next
  case (4 n s)
  obtain v t where v: "json_value n s = Some (v, t)" using 4(3) by (auto split: option.splits)
  obtain c u where u: "skip_ws t = c # u" using 4(3) v by (auto split: list.splits)
  have lt: "length t < length s" by (rule 4(1) [OF v])
  have lu: "length u < length t" by (rule skip_ws_Cons [OF u])
  show ?case
  proof (cases "c = 44")
    case True
    then obtain ws where "json_elems n u = Some (ws, r)" using 4(3) v u by auto
    then have "length r < length u" by (rule 4(2) [OF v refl u True])
    then show ?thesis using lt lu by simp
  next
    case False
    then show ?thesis using 4(3) v u lt lu by (auto split: if_splits)
  qed
next
  case (6 n ps s)
  obtain q t where t: "skip_ws s = q # t" using 6(3) by (auto split: list.splits)
  then have q: "q = 34" using 6(3) by (auto split: if_splits)
  obtain k x where k: "json_chars t = Some (k, x)" using 6(3) t q by (auto split: option.splits)
  obtain c u where u: "skip_ws x = c # u" using 6(3) t q k by (auto split: list.splits)
  then have c: "c = 58" using 6(3) t q k by (auto split: if_splits)
  obtain v y where v: "json_value n u = Some (v, y)" using 6(3) t q k u c by (auto split: option.splits)
  obtain e w where w: "skip_ws y = e # w" using 6(3) t q k u c v by (auto split: list.splits)
  have q': "\<not> q \<noteq> 34" and c': "\<not> c \<noteq> 58" using q c by simp_all
  have "length y < length u" by (rule 6(1) [OF t q' k refl u c' v])
  then have l: "length w < length s"
    using skip_ws_Cons [OF t] json_chars_less [OF k] skip_ws_Cons [OF u] skip_ws_Cons [OF w] by linarith
  show ?case
  proof (cases "e = 44")
    case True
    have "json_members n (put ps k v) w = Some (qs, r)" using 6(3) t q k u c v w True by simp
    then have "length r < length w" by (rule 6(2) [OF t q' k refl u c' v refl w True])
    then show ?thesis using l by simp
  next
    case False
    then show ?thesis using 6(3) t q k u c v w l by (simp split: if_splits)
  qed
qed simp_all

lemma json_value_step:
  assumes "\<And>t. length t < length s \<Longrightarrow> json_elems (Suc n) t = json_elems n t"
    "\<And>t. length t < length s \<Longrightarrow> json_members (Suc n) [] t = json_members n [] t"
  shows "json_value (Suc (Suc n)) s = json_value (Suc n) s"
proof (cases "skip_ws s")
  case (Cons c t)
  have "length t < length s" using skip_ws_Cons [OF Cons] by simp
  then show ?thesis
    unfolding json_value.simps(2) [of "Suc n"] json_value.simps(2) [of n] Cons list.case
    using assms by (auto simp del: json_value.simps json_elems.simps json_members.simps)
qed simp

lemma json_elems_step:
  assumes "\<And>t. length t \<le> length s \<Longrightarrow> json_value (Suc n) t = json_value n t"
    "\<And>t. length t < length s \<Longrightarrow> json_elems (Suc n) t = json_elems n t"
  shows "json_elems (Suc (Suc n)) s = json_elems (Suc n) s"
proof -
  have v: "json_value (Suc n) s = json_value n s" using assms(1) by simp
  show ?thesis
  proof (cases "json_value n s")
    case (Some p)
    obtain x t where x: "p = (x, t)" by fastforce
    show ?thesis
    proof (cases "skip_ws t")
      case (Cons c u)
      have "length u < length s" using skip_ws_Cons [OF Cons] json_less(1) [of n s x t] Some x by simp
      then show ?thesis unfolding json_elems.simps(2) [of "Suc n" s] json_elems.simps(2) [of n s] v Some x
        using Cons assms(2) by (simp del: json_value.simps json_elems.simps)
    qed (simp add: v Some x del: json_value.simps)
  qed (simp add: v del: json_value.simps)
qed

lemma json_members_step:
  assumes v: "\<And>t. length t < length s \<Longrightarrow> json_value (Suc n) t = json_value n t"
    and m: "\<And>qs t. length t < length s \<Longrightarrow> json_members (Suc n) qs t = json_members n qs t"
  shows "json_members (Suc (Suc n)) ps s = json_members (Suc n) ps s"
proof (cases "\<exists>t k x u. skip_ws s = 34 # t \<and> json_chars t = Some (k, x) \<and> skip_ws x = 58 # u")
  case True
  then obtain t k x u where parts: "skip_ws s = 34 # t" "json_chars t = Some (k, x)" "skip_ws x = 58 # u" by blast
  have lu: "length u < length s" using skip_ws_Cons [OF parts(1)] json_chars_less [OF parts(2)] skip_ws_Cons [OF parts(3)] by simp
  have "length w < length s" if "json_value n u = Some (y, z)" "skip_ws z = e # w" for y z e w
    using json_less(1) [OF that(1)] skip_ws_Cons [OF that(2)] lu by simp
  then have tail: "(case skip_ws z of [] \<Rightarrow> None | e # w \<Rightarrow> if e = 44 then json_members (Suc n) (put ps k y) w
        else if e = 125 then Some (put ps k y, w) else None) =
      (case skip_ws z of [] \<Rightarrow> None | e # w \<Rightarrow> if e = 44 then json_members n (put ps k y) w
        else if e = 125 then Some (put ps k y, w) else None)" if "json_value n u = Some (y, z)" for y z
    using m that by (simp del: json_members.simps split: list.split)
  show ?thesis
    unfolding json_members.simps(2) [of "Suc n" ps s] json_members.simps(2) [of n ps s] parts list.case
    using parts tail v [OF lu] by (cases "json_value n u") (auto simp del: json_value.simps json_members.simps)
next
  case False
  then show ?thesis
    unfolding json_members.simps(2) [of "Suc n" ps s] json_members.simps(2) [of n ps s]
    by (auto simp del: json_value.simps json_members.simps split: list.split option.split)
qed

lemma json_stable:
  "2 * length s + 1 \<le> n \<Longrightarrow> json_value (Suc n) s = json_value n s"
  "2 * length s + 2 \<le> n \<Longrightarrow> json_elems (Suc n) s = json_elems n s"
  "2 * length s + 2 \<le> n \<Longrightarrow> json_members (Suc n) ps s = json_members n ps s"
proof (induction n arbitrary: s ps)
  case (Suc n)
  {
    case 1
    then show ?case by (intro json_value_step Suc.IH) simp_all
  next
    case 2
    then show ?case by (intro json_elems_step Suc.IH) simp_all
  next
    case 3
    then show ?case by (intro json_members_step Suc.IH) simp_all
  }
qed simp_all

lemma json_fuel: "2 * length s + 1 \<le> n \<Longrightarrow> json_value n s = json_value (2 * length s + 1) s"
  by (induction n rule: nat_induct_at_least) (simp_all only: json_stable(1))

end
