(* ===== verification/Feed_Data.thy ===== *)
theory Feed_Data
  imports JS_Text
begin

text \<open>
  \<^verbatim>\<open>src/site/feed-data.js\<close>: the freshness window and the guarded download of a status report. The
  outcome of \<^verbatim>\<open>fetch\<close> is an argument: a rejection, or a response with its headers and the chunks its
  body delivers before it ends or fails (the ten-second timer makes a late body fail). Besides its
  result, \<^verbatim>\<open>read\<close> records what it did to the network: which path it requested and that it released
  the reader, the request and the timer. Cancelling the reader is taken to settle.
\<close>

section \<open>Model\<close>

definition fresh :: "js_env \<Rightarrow> jsval \<Rightarrow> jsnum \<Rightarrow> bool js" where
  "fresh env data now =
     rbind (if truthy data then get data ''updatedAt'' else Inr data) (\<lambda>u.
     rbind (to_string env u) (\<lambda>s.
       let age = num_sub now (Date_parse env s) in
       Inr (num_finite age \<and> num_le (Fin (- 30000)) age \<and> num_le age (Fin 120000))))"

text \<open>The class \<^verbatim>\<open>[a-zA-Z0-9/_.-]\<close> and the expression \<^verbatim>\<open>/^\/data\/[a-zA-Z0-9/_.-]+\.json$/\<close>.\<close>

definition path_char :: "nat \<Rightarrow> bool" where
  "path_char c \<longleftrightarrow> is_lower c \<or> is_upper c \<or> is_digit c \<or> c \<in> {47, 95, 46, 45}"

definition path_re :: regex where
  "path_re = RSeq (re_lit ''/data/'') (RSeq (RClass path_char) (RSeq (RStar (RClass path_char)) (re_lit ''.json'')))"

fun split_on :: "nat \<Rightarrow> jsstr \<Rightarrow> jsstr list" where
  "split_on sep [] = [[]]"
| "split_on sep (c # cs) =
     (case split_on sep cs of [] \<Rightarrow> [[c]]
      | part # parts \<Rightarrow> if c = sep then [] # part # parts else (c # part) # parts)"

definition path_ok :: "jsstr \<Rightarrow> bool" where
  "path_ok path \<longleftrightarrow> re_test path_re path \<and>
     \<not> list_ex (\<lambda>part. part = lit ''.'' \<or> part = lit ''..'') (split_on 47 path)"

record response =
  resp_ok :: bool
  content_length :: "jsstr option"
  body :: "(nat list list \<times> js_error option) option"

datatype effect = StartTimer nat | Fetch jsstr | CancelReader | AbortFetch | ClearTimer

fun read_loop :: "utf8 \<Rightarrow> nat \<Rightarrow> jsstr \<Rightarrow> nat \<Rightarrow> nat list list \<Rightarrow> js_error option \<Rightarrow> (utf8 \<times> jsstr) js" where
  "read_loop decoder sz text maxBytes [] None = Inr (decoder, text)"
| "read_loop decoder sz text maxBytes [] (Some e) = Inl e"
| "read_loop decoder sz text maxBytes (part # parts) fin =
     (let sz' = sz + length part in
      if sz' > maxBytes then Inl (Thrown (lit ''Report too large''))
      else rbind (decode_stream decoder part) (\<lambda>(decoder', s).
        read_loop decoder' sz' (text @ s) maxBytes parts fin))"

definition header_number :: "jsstr option \<Rightarrow> jsnum" where
  "header_number h = (case h of None \<Rightarrow> Fin 0 | Some s \<Rightarrow> string_to_number s)"

definition read :: "jsstr \<Rightarrow> nat \<Rightarrow> response js \<Rightarrow> effect list \<times> jsval js" where
  "read path maxBytes fetched =
     (if \<not> path_ok path then ([], Inl (Thrown (lit ''Unexpected report path'')))
      else
        let finish = (\<lambda>reader r. ([StartTimer 10000, Fetch path] @ (if reader then [CancelReader] else []) @
                                  [AbortFetch, ClearTimer], r)) in
        case fetched of Inl e \<Rightarrow> finish False (Inl e)
        | Inr response \<Rightarrow>
            (case body response of None \<Rightarrow> finish False (Inl (Thrown (lit ''Report unavailable'')))
             | Some (parts, fin) \<Rightarrow>
                 if \<not> resp_ok response then finish False (Inl (Thrown (lit ''Report unavailable'')))
                 else if num_lt (Fin (of_nat maxBytes)) (header_number (content_length response))
                 then finish False (Inl (Thrown (lit ''Report too large'')))
                 else finish True (rbind (read_loop utf8_start 0 [] maxBytes parts fin) (\<lambda>(decoder, text).
                   rbind (decode_flush decoder) (\<lambda>t. JSON_parse (text @ t))))))"

definition default_maxBytes :: nat where
  "default_maxBytes = 131072"

section \<open>The bytes decide, not the chunks\<close>

lemma read_loop_ok:
  "read_loop d sz text m parts None = Inr (d', text') \<longleftrightarrow>
     sz + length (concat parts) \<le> m \<and> (\<exists>s. decode_stream d (concat parts) = Inr (d', s) \<and> text' = text @ s)
   \<or> parts = [] \<and> d' = d \<and> text' = text"
proof (induction parts arbitrary: d sz "text")
  case (Cons p ps)
  show ?case
  proof (cases "sz + length p > m")
    case False
    show ?thesis
    proof (cases "decode_stream d p")
      case (Inr r)
      obtain d1 s1 where r: "r = (d1, s1)" by fastforce
      have "read_loop d sz text m (p # ps) None = read_loop d1 (sz + length p) (text @ s1) m ps None"
        using False Inr r by simp
      then show ?thesis using Cons [of d1 "sz + length p" "text @ s1"] False Inr r
        by (cases "decode_stream d1 (concat ps)") (auto simp: decode_stream_append)
    qed (use False in \<open>auto simp: decode_stream_append\<close>)
  qed auto
qed auto

lemma read_loop_fails: "read_loop d sz text m parts (Some e) \<noteq> Inr r"
proof (induction parts arbitrary: d sz "text")
  case (Cons p ps)
  then show ?case by (cases "decode_stream d p") (auto simp: Let_def split: if_splits)
qed simp

lemma read_loop_text:
  "(\<exists>d t. read_loop utf8_start 0 [] m parts fin = Inr (d, t) \<and> decode_flush d = Inr [] \<and> text = t) \<longleftrightarrow>
     fin = None \<and> length (concat parts) \<le> m \<and> utf8_decode (concat parts) = Inr text"
proof (cases fin)
  case None
  have "(\<exists>d. read_loop utf8_start 0 [] m parts None = Inr (d, text) \<and> decode_flush d = Inr []) \<longleftrightarrow>
      length (concat parts) \<le> m \<and> (\<exists>d. decode_stream utf8_start (concat parts) = Inr (d, text) \<and> decode_flush d = Inr [])"
    unfolding read_loop_ok by auto
  also have "(\<exists>d. decode_stream utf8_start (concat parts) = Inr (d, text) \<and> decode_flush d = Inr []) \<longleftrightarrow>
      utf8_decode (concat parts) = Inr text"
    by (cases "decode_stream utf8_start (concat parts)") (auto simp: utf8_decode_def decode_flush_def split: if_splits)
  finally show ?thesis using None by auto
next
  case (Some e)
  then show ?thesis by (simp add: read_loop_fails)
qed

section \<open>Freshness and paths\<close>

lemma round_double_window:
  "num_finite (round_double (of_int n)) \<and> num_le (Fin (- 30000)) (round_double (of_int n)) \<and>
     num_le (round_double (of_int n)) (Fin 120000) \<longleftrightarrow> - 30000 \<le> n \<and> n \<le> 120000"
proof (cases "\<bar>n\<bar> < 2 ^ 53")
  case True
  have "- 30000 \<le> (of_int n :: rat) \<longleftrightarrow> - 30000 \<le> n" "(of_int n :: rat) \<le> 120000 \<longleftrightarrow> n \<le> 120000" by linarith+
  then show ?thesis unfolding round_double_int [OF True] by simp
next
  case False
  then have "(of_int (2 ^ 53) :: rat) \<le> of_int \<bar>n\<bar>" by (simp only: of_int_le_iff not_less)
  then have "2 ^ 53 \<le> round_pos \<bar>of_int n :: rat\<bar>" by (intro round_pos_big) simp
  then have "120000 < round_pos \<bar>of_int n :: rat\<bar>" by simp
  then show ?thesis using False by (auto simp: round_double_def Let_def split: if_splits)
qed

lemma fresh_iso:
  assumes "get data ''updatedAt'' = Inr (JStr s)" "iso_utc s = Some t"
  shows "fresh env data (Fin (of_int now)) = Inr (t - 30000 \<le> now \<and> now \<le> t + 120000)"
proof -
  have tr: "truthy data" using assms(1) by (cases data) (auto simp: get_def split: option.splits)
  have "fresh env data (Fin (of_int now)) = Inr (num_finite (round_double (of_int (now - t))) \<and>
      num_le (Fin (- 30000)) (round_double (of_int (now - t))) \<and> num_le (round_double (of_int (now - t))) (Fin 120000))"
    using assms tr by (simp add: fresh_def Date_parse_def Let_def)
  then show ?thesis unfolding round_double_window by auto
qed

lemma path_re_shape:
  "re_test path_re p \<longleftrightarrow> (\<exists>w. w \<noteq> [] \<and> list_all path_char w \<and> p = lit ''/data/'' @ w @ lit ''.json'')"
proof -
  have "re_test path_re p \<longleftrightarrow> (\<exists>v. p = lit ''/data/'' @ v \<and>
      v \<in> lang (RSeq (RClass path_char) (RSeq (RStar (RClass path_char)) (re_lit ''.json''))))"
    unfolding re_test_lang path_re_def lang.simps(5) [of "re_lit _"] by (auto simp: lang_re_lit)
  also have "\<dots> \<longleftrightarrow> (\<exists>c u. p = lit ''/data/'' @ c # u @ lit ''.json'' \<and> path_char c \<and> list_all path_char u)"
    unfolding lang_class_Cons lang.simps(5) [of "RStar _"] by (auto simp: lang_re_lit lang_star_class simp del: lang.simps)
  also have "\<dots> \<longleftrightarrow> (\<exists>w. w \<noteq> [] \<and> list_all path_char w \<and> p = lit ''/data/'' @ w @ lit ''.json'')"
    by (auto simp: neq_Nil_conv)
  finally show ?thesis .
qed

lemma read_loop_result:
  "rbind (read_loop utf8_start 0 [] m parts fin) (\<lambda>(d, t). rbind (decode_flush d) (\<lambda>u. JSON_parse (t @ u))) = Inr v \<longleftrightarrow>
     fin = None \<and> length (concat parts) \<le> m \<and> (\<exists>text. utf8_decode (concat parts) = Inr text \<and> JSON_parse text = Inr v)"
proof -
  have "rbind (read_loop utf8_start 0 [] m parts fin) (\<lambda>(d, t). rbind (decode_flush d) (\<lambda>u. JSON_parse (t @ u))) = Inr v \<longleftrightarrow>
      (\<exists>text. (\<exists>d t. read_loop utf8_start 0 [] m parts fin = Inr (d, t) \<and> decode_flush d = Inr [] \<and> text = t) \<and>
        JSON_parse text = Inr v)"
    by (auto simp: rbind_Inr_iff decode_flush_def split: if_splits prod.splits)
  then show ?thesis unfolding read_loop_text by auto
qed

section \<open>A concrete report\<close>

definition ex_response :: response where
  "ex_response = \<lparr>resp_ok = True, content_length = Some (lit ''13''), body = Some ([lit ''{\"a\":'', lit ''[7,8]}''], None)\<rparr>"

lemmas char_classes = path_char_def is_lower_def is_upper_def is_digit_def

lemma ex_path: "path_ok (lit ''/data/explorer.json'')"
  by (simp add: path_ok_def path_re_def lit_def re_lit_def char_classes)

lemma read_resolves:
  "snd (read path maxBytes fetched) = Inr v \<longleftrightarrow> path_ok path \<and>
     (\<exists>response parts text. fetched = Inr response \<and> resp_ok response \<and> body response = Some (parts, None) \<and>
        \<not> num_lt (Fin (of_nat maxBytes)) (header_number (content_length response)) \<and>
        length (concat parts) \<le> maxBytes \<and> utf8_decode (concat parts) = Inr text \<and> JSON_parse text = Inr v)"
proof (cases "path_ok path")
  case True
  show ?thesis
  proof (cases fetched)
    case (Inr r)
    show ?thesis
    proof (cases "body r")
      case (Some b)
      then show ?thesis using True Inr by (cases b) (auto simp: read_def Let_def read_loop_result)
    qed (use True Inr in \<open>auto simp: read_def Let_def\<close>)
  qed (use True in \<open>auto simp: read_def Let_def\<close>)
qed (simp add: read_def)

lemma ex_stamp: "iso_utc (lit ''2026-09-09T00:00:00Z'') = Some 1788912000000"
  by (simp add: iso_utc_def iso_re_def lit_def re_lit_def is_digit_def field_def dec_val_def make_day_def
      days_in_month_def day_from_year_def leap_def upt_conv_Cons)

section \<open>Properties\<close>

text \<open>
  C8. \<^verbatim>\<open>SlithyFeed.read\<close> resolves exactly when the path is an accepted report path, the response is
  successful, its body ends without failing, neither the declared nor the counted length exceeds the
  limit, and all the bytes together are valid UTF-8 for a JSON text; it resolves with that text's
  value. How the bytes were cut into chunks, also inside a multi-byte character, does not matter,
  and a missing or false \<^verbatim>\<open>Content-Length\<close> does not lift the limit.
\<close>

theorem read_resolves_iff:
  "snd (read path maxBytes fetched) = Inr v \<longleftrightarrow> path_ok path \<and>
     (\<exists>response parts text. fetched = Inr response \<and> resp_ok response \<and> body response = Some (parts, None) \<and>
        \<not> num_lt (Fin (of_nat maxBytes)) (header_number (content_length response)) \<and>
        length (concat parts) \<le> maxBytes \<and> utf8_decode (concat parts) = Inr text \<and> JSON_parse text = Inr v)"
  by (rule read_resolves)

text \<open>
  C33. \<^verbatim>\<open>SlithyFeed.read\<close> requests nothing but the path it was given, and only when that path is
  \<^verbatim>\<open>/data/\<close>, then characters that can neither escape nor query, then \<^verbatim>\<open>.json\<close>, with no segment that is
  a dot or two dots. Whatever happens after the request, the request is aborted and the timer
  cleared at the end.
\<close>

theorem read_requests_only_reports:
  assumes "Fetch p \<in> set (fst (read path maxBytes fetched))"
  shows "p = path \<and> (\<exists>w. w \<noteq> [] \<and> list_all path_char w \<and> p = lit ''/data/'' @ w @ lit ''.json'') \<and>
    lit ''.'' \<notin> set (split_on 47 p) \<and> lit ''..'' \<notin> set (split_on 47 p) \<and>
    (\<exists>es. fst (read path maxBytes fetched) = es @ [AbortFetch, ClearTimer])"
proof -
  have ok: "path_ok path" using assms by (auto simp: read_def split: if_splits)
  have "fst (read path maxBytes fetched) \<in> (\<lambda>r. [StartTimer 10000, Fetch path] @ (if r then [CancelReader] else []) @ [AbortFetch, ClearTimer]) ` UNIV"
    using ok by (auto simp: read_def Let_def split: sum.splits option.splits)
  then obtain r where e: "fst (read path maxBytes fetched) = ([StartTimer 10000, Fetch path] @ (if r then [CancelReader] else [])) @ [AbortFetch, ClearTimer]"
    by auto
  moreover have "p = path" using assms e by (auto split: if_splits)
  ultimately show ?thesis using ok by (auto simp: path_ok_def path_re_shape list_ex_iff)
qed

theorem read_requests_only_reports_witness:
  "Fetch (lit ''/data/explorer.json'') \<in> set (fst (read (lit ''/data/explorer.json'') 4194304 (Inr ex_response))) \<and>
    lit ''..'' \<notin> set (split_on 47 (lit ''/data/explorer.json''))"
proof -
  have "Fetch (lit ''/data/explorer.json'') \<in> set (fst (read (lit ''/data/explorer.json'') 4194304 (Inr ex_response)))"
    using ex_path by (simp add: read_def ex_response_def Let_def)
  then show ?thesis using read_requests_only_reports [of _ "lit ''/data/explorer.json''"] by blast
qed

text \<open>
  C34. A report stamped with a UTC time in the interchange format is fresh exactly from thirty
  seconds before its stamp to two minutes after it, for every clock value, although the age is
  computed in doubles.
\<close>

theorem fresh_window:
  assumes "get data ''updatedAt'' = Inr (JStr s)" "iso_utc s = Some t"
  shows "fresh env data (Fin (of_int now)) = Inr (t - 30000 \<le> now \<and> now \<le> t + 120000)"
  using assms by (rule fresh_iso)

theorem fresh_window_witness:
  "fresh ex_env (JObj [(lit ''updatedAt'', JStr (lit ''2026-09-09T00:00:00Z''))]) (Fin (of_int 1788912120000)) = Inr True \<and>
   fresh ex_env (JObj [(lit ''updatedAt'', JStr (lit ''2026-09-09T00:00:00Z''))]) (Fin (of_int 1788912120001)) = Inr False"
proof -
  have g: "get (JObj [(lit ''updatedAt'', JStr (lit ''2026-09-09T00:00:00Z''))]) ''updatedAt'' = Inr (JStr (lit ''2026-09-09T00:00:00Z''))"
    by (simp add: get_def)
  show ?thesis
    using fresh_window [OF g ex_stamp, of ex_env 1788912120000] fresh_window [OF g ex_stamp, of ex_env 1788912120001] by simp
qed

end
