(* ===== verification/Report_Checks.thy ===== *)
theory Report_Checks
  imports Feed_Data
begin

text \<open>
  What the three pages share: the regular expressions their checks use, conditions on the properties of
  a report, the contract of a page that polls a report, and a sample of report values.
\<close>

section \<open>Conditions on reports\<close>

text \<open>The expressions \<^verbatim>\<open>/^[a-f0-9]{64}$/i\<close> and \<^verbatim>\<open>/^\d{1,15}(\.\d{1,8})?$/\<close>.\<close>

definition hash_re :: regex where
  "hash_re = re_rep (RClass is_hex) 64"

definition amount_re :: regex where
  "amount_re = RSeq (RSeq (RClass is_digit) (re_upto (RClass is_digit) 14))
     (RAlt REps (RSeq (re_lit ''.'') (RSeq (RClass is_digit) (re_upto (RClass is_digit) 7))))"

text \<open>A condition on one property of an object.\<close>

definition has :: "jsval \<Rightarrow> string \<Rightarrow> (jsval \<Rightarrow> bool) \<Rightarrow> bool js" where
  "has v k P = rbind (get v k) (\<lambda>x. Inr (P x))"

definition or_else :: "jsval \<Rightarrow> jsstr \<Rightarrow> jsval" where
  "or_else v s = (if truthy v then v else JStr s)"

section \<open>When conditions hold\<close>

lemma js_and_True: "js_and a b = Inr True \<longleftrightarrow> a = Inr True \<and> b = Inr True"
  by (cases a) (auto simp: js_and_def)

lemma js_or_True: "js_or a b = Inr True \<longleftrightarrow> a = Inr True \<or> a = Inr False \<and> b = Inr True"
  by (cases a) (auto simp: js_or_def)

lemma js_every_True: "js_every f xs = Inr True \<longleftrightarrow> (\<forall>x \<in> set xs. f x = Inr True)"
  by (induction xs) (auto simp: js_and_True)

lemma has_True: "has v k P = Inr True \<longleftrightarrow> (\<exists>x. get v k = Inr x \<and> P x)"
  by (cases "get v k") (auto simp: has_def)

lemmas conds_True = js_and_True js_or_True js_every_True has_True

lemma get_other: "get v k = Inr x \<Longrightarrow> \<exists>y. get v k' = Inr y"
  by (cases v) (auto simp: get_def split: option.splits)

lemma amount_shape:
  "re_test amount_re s \<longleftrightarrow> (\<exists>i f. s = i @ f \<and> list_all is_digit i \<and> 1 \<le> length i \<and> length i \<le> 15 \<and>
     (f = [] \<or> (\<exists>ds. f = 46 # ds \<and> list_all is_digit ds \<and> 1 \<le> length ds \<and> length ds \<le> 8)))"
proof -
  have cls: "w \<in> lang (RSeq (RClass is_digit) (re_upto (RClass is_digit) n)) \<longleftrightarrow> list_all is_digit w \<and> 1 \<le> length w \<and> length w \<le> Suc n"
    for w n by (cases w) (auto simp: lang_class_Cons lang_re_upto_class simp del: lang.simps)
  have dot: "w \<in> lang (re_lit ''.'') \<longleftrightarrow> w = [46]" for w by (simp add: lang_re_lit) (simp add: lit_def)
  have seq: "w \<in> lang (RSeq r r') \<longleftrightarrow> (\<exists>u v. w = u @ v \<and> u \<in> lang r \<and> v \<in> lang r')" for w r r' by auto
  have alt: "w \<in> lang (RAlt REps r) \<longleftrightarrow> w = [] \<or> w \<in> lang r" for w r by auto
  show ?thesis
    unfolding re_test_lang amount_re_def seq [of s] alt seq [of _ "re_lit ''.''"] cls dot by (auto simp: numeral_eq_Suc)
qed

lemma map_option_dom:
  assumes "dom f = dom g"
  shows "map_option (\<lambda>_. c) (f x) = map_option (\<lambda>_. c) (g x)"
proof -
  have "x \<in> dom f \<longleftrightarrow> x \<in> dom g" using assms by simp
  then show ?thesis by (cases "f x"; cases "g x") (simp_all add: domIff)
qed

section \<open>Polling\<close>

text \<open>
  A page starts a download unless one is under way, and a finished download ends that. The other
  moves of a page (painting, expiry, typing) leave the download alone. Then \<open>busy\<close> tells exactly
  whether a download is pending, and there is never a second one.
\<close>

definition one_download :: "('s \<Rightarrow> bool) \<Rightarrow> ('s \<Rightarrow> nat) \<Rightarrow> 's \<Rightarrow> bool" where
  "one_download busy pending s \<longleftrightarrow> pending s = (if busy s then 1 else 0)"

locale polled_page =
  fixes busy :: "'s \<Rightarrow> bool" and pending :: "'s \<Rightarrow> nat" and start :: "'s \<Rightarrow> 's"
    and finish :: "'r \<Rightarrow> 's \<Rightarrow> 's" and move :: "'m \<Rightarrow> 's \<Rightarrow> 's"
  assumes start_busy: "busy s \<Longrightarrow> start s = s"
    and start_idle: "\<not> busy s \<Longrightarrow> busy (start s) \<and> pending (start s) = Suc (pending s)"
    and finish: "\<not> busy (finish r s) \<and> pending (finish r s) = pending s - 1"
    and move: "busy (move m s) = busy s \<and> pending (move m s) = pending s"
begin

lemma start_keeps: "one_download busy pending s \<Longrightarrow> one_download busy pending (start s)"
  using start_busy start_idle by (cases "busy s") (simp_all add: one_download_def)

lemma finish_keeps: "one_download busy pending s \<Longrightarrow> 0 < pending s \<Longrightarrow> one_download busy pending (finish r s)"
  using finish by (simp add: one_download_def split: if_splits)

lemma move_keeps: "one_download busy pending s \<Longrightarrow> one_download busy pending (move m s)"
  using move by (simp add: one_download_def)

lemmas keeps = start_keeps finish_keeps move_keeps

end

section \<open>Sample values\<close>

definition ex_hash :: jsval where
  "ex_hash = JStr (replicate 64 97)"

definition ex_num :: "int \<Rightarrow> jsval" where
  "ex_num n = JNum (Fin (of_int n))"

definition obj :: "(string \<times> jsval) list \<Rightarrow> jsval" where
  "obj ps = JObj (map (apfst lit) ps)"

lemma get_obj: "get (obj ps) k = Inr (case map_of ps k of None \<Rightarrow> JUndefined | Some x \<Rightarrow> x)"
proof -
  have "map_of (map (apfst lit) ps) (lit k) = map_of ps k" by (induction ps) (auto simp: lit_inj)
  then show ?thesis by (simp add: get_def obj_def split: option.split)
qed

lemma ex_num_simps [simp]:
  "isSafeInteger (ex_num n) \<longleftrightarrow> \<bar>n\<bar> < 2 ^ 53" "isFinite (ex_num n)" "truthy (ex_num n) \<longleftrightarrow> n \<noteq> 0"
  "val_le (JNum (Fin 0)) (ex_num n) \<longleftrightarrow> 0 \<le> n" "val_le (JNum (Fin 1)) (ex_num n) \<longleftrightarrow> 1 \<le> n" "val_le (ex_num m) (ex_num n) \<longleftrightarrow> m \<le> n"
proof -
  have "(of_int \<bar>n\<bar> :: rat) \<le> of_int (2 ^ 53 - 1) \<longleftrightarrow> \<bar>n\<bar> < 2 ^ 53" by (simp only: of_int_le_iff) arith
  then show "isSafeInteger (ex_num n) \<longleftrightarrow> \<bar>n\<bar> < 2 ^ 53" by (simp add: ex_num_def)
qed (simp_all add: ex_num_def)

end
