(* ===== verification/Explorer.thy ===== *)
theory Explorer
  imports Report_Checks
begin

text \<open>
  \<^verbatim>\<open>src/site/explorer.js\<close>: validation of the explorer report, the elements built from it, and the
  page's state under timers, finished downloads, typing and visibility changes. The document is the
  text of the elements that \<^verbatim>\<open>set\<close> writes, the rows of the block table and the list of transactions;
  an element is a node with its tag, class, text, \<^verbatim>\<open>data-txid\<close>, \<^verbatim>\<open>open\<close> flag and children.
\<close>

section \<open>Validation\<close>

definition integer :: "jsval \<Rightarrow> bool" where
  "integer n \<longleftrightarrow> isSafeInteger n \<and> val_le (JNum (Fin 0)) n"

definition hash :: "jsval \<Rightarrow> bool" where
  "hash value = (case value of JStr s \<Rightarrow> re_test hash_re s | _ \<Rightarrow> False)"

definition amount :: "jsval \<Rightarrow> bool" where
  "amount value = (case value of JStr s \<Rightarrow> re_test amount_re s | _ \<Rightarrow> False)"

definition address :: "jsval \<Rightarrow> bool" where
  "address value = (case value of JNull \<Rightarrow> True | JStr s \<Rightarrow> length s \<le> 128 | _ \<Rightarrow> False)"

definition array_upto :: "nat \<Rightarrow> jsval \<Rightarrow> bool" where
  "array_upto n v \<longleftrightarrow> isArray v \<and> length (elems v) \<le> n"

definition valid_input :: "jsval \<Rightarrow> bool js" where
  "valid_input input = js_and (Inr (truthy input))
     (js_or (has input ''coinbase'' (\<lambda>x. x = JBool True))
       (js_all [has input ''txid'' hash, has input ''vout'' integer, has input ''address'' address,
                has input ''value'' (\<lambda>x. x = JNull \<or> amount x)]))"

definition valid_output :: "jsval \<Rightarrow> bool js" where
  "valid_output output = js_all
     [Inr (truthy output), has output ''n'' integer, has output ''address'' address,
      has output ''type'' (\<lambda>x. case x of JStr s \<Rightarrow> length s \<le> 80 | _ \<Rightarrow> False),
      has output ''value'' amount, has output ''treasury'' is_boolean]"

definition at_least_length :: "jsval \<Rightarrow> string \<Rightarrow> string \<Rightarrow> bool js" where
  "at_least_length tx count list =
     rbind (get tx count) (\<lambda>n. has tx list (\<lambda>x. val_le (JNum (Fin (of_nat (length (elems x))))) n))"

definition every_in :: "(jsval \<Rightarrow> bool js) \<Rightarrow> jsval \<Rightarrow> string \<Rightarrow> bool js" where
  "every_in f v k = rbind (get v k) (\<lambda>x. js_every f (elems x))"

definition valid_tx :: "jsval \<Rightarrow> bool js" where
  "valid_tx tx = js_all
     [Inr (truthy tx), has tx ''txid'' hash, has tx ''coinbase'' is_boolean,
      has tx ''inputCount'' integer, has tx ''outputCount'' integer,
      has tx ''inputs'' (array_upto 16), at_least_length tx ''inputCount'' ''inputs'',
      has tx ''outputs'' (array_upto 16), at_least_length tx ''outputCount'' ''outputs'',
      every_in valid_input tx ''inputs'', every_in valid_output tx ''outputs'']"

definition valid_block :: "jsval \<Rightarrow> jsval \<Rightarrow> bool js" where
  "valid_block height block = js_all
     [Inr (truthy block), has block ''height'' integer, has block ''height'' (\<lambda>h. val_le h height),
      has block ''hash'' hash, has block ''time'' integer, has block ''confirmations'' integer,
      has block ''transactionCount'' integer, has block ''difficulty'' isFinite,
      has block ''difficulty'' (val_le (JNum (Fin 0))),
      has block ''minerSubsidyEstimate'' amount, has block ''treasurySubsidyEstimate'' amount,
      has block ''transactions'' (array_upto 8), every_in valid_tx block ''transactions'']"

definition validate :: "js_env \<Rightarrow> jsval \<Rightarrow> jsnum \<Rightarrow> bool js" where
  "validate env data now = js_all
     [Inr (truthy data), fresh env data now, has data ''chain'' (\<lambda>x. x = JStr (lit ''test'')),
      has data ''height'' integer, has data ''peerCount'' integer, has data ''bestBlockHash'' hash,
      has data ''blocks'' (array_upto 25),
      rbind (get data ''height'') (\<lambda>h. every_in (valid_block h) data ''blocks'')]"

section \<open>Elements\<close>

datatype node = Node (tag: string) (cls: string) (content: jsstr) (txid: "jsstr option") (is_open: bool) (kids: "node list")

definition el :: "string \<Rightarrow> jsstr \<Rightarrow> string \<Rightarrow> node list \<Rightarrow> node" where
  "el t text c ks = Node t c text None False ks"

text \<open>Assigning to \<^verbatim>\<open>textContent\<close>: null and undefined empty the element, any other value is coerced.\<close>

definition text_content :: "js_env \<Rightarrow> jsval \<Rightarrow> jsstr js" where
  "text_content env v = (if v = JNull \<or> v = JUndefined then Inr [] else to_string env v)"

definition time :: "js_env \<Rightarrow> jsval \<Rightarrow> jsstr js" where
  "time env value =
     rbind (case value of JNum n \<Rightarrow> Inr (time_clip (num_mul_pos n 1000)) | _ \<Rightarrow> new_date env value) (\<lambda>d.
       Inr (case d of None \<Rightarrow> lit ''Unknown'' | Some t \<Rightarrow> date_locale env t))"

definition string_prop :: "js_env \<Rightarrow> jsval \<Rightarrow> string \<Rightarrow> jsstr js" where
  "string_prop env v k = rbind (get v k) (to_string env)"

definition render_input :: "js_env \<Rightarrow> jsval \<Rightarrow> node js" where
  "render_input env input =
     rbind (get input ''coinbase'') (\<lambda>cb.
     if truthy cb
     then Inr (el ''div'' [] ''tx-entry'' [el ''p'' (lit ''New coins created by mining. No sending address.'') [] []])
     else
       rbind (get input ''address'') (\<lambda>a.
       rbind (text_content env (or_else a (lit ''Previous output address unavailable''))) (\<lambda>addr.
       rbind (get input ''value'') (\<lambda>v.
       rbind (if v = JNull \<or> v = JUndefined then Inr []
              else rbind (to_string env v) (\<lambda>s. Inr [el ''span'' (s @ lit '' SLTHY'') [] []])) (\<lambda>amount_el.
       rbind (string_prop env input ''vout'') (\<lambda>vout.
       rbind (get input ''txid'') (\<lambda>id.
       rbind (text_content env id) (\<lambda>prev.
         Inr (el ''div'' [] ''tx-entry''
           ([el ''code'' addr ''tx-address'' []] @ amount_el @
            [el ''p'' (lit ''Spends output '' @ vout @ lit '' of transaction:'') [] [],
             el ''code'' prev ''tx-address'' []]))))))))))"

definition render_output :: "js_env \<Rightarrow> jsval \<Rightarrow> node js" where
  "render_output env output =
     rbind (string_prop env output ''n'') (\<lambda>n.
     rbind (get output ''treasury'') (\<lambda>tr.
     rbind (get output ''address'') (\<lambda>a.
     rbind (if truthy a then text_content env a
            else rbind (string_prop env output ''type'') (\<lambda>t. Inr (lit ''No standard address ('' @ t @ lit '')''))) (\<lambda>addr.
     rbind (string_prop env output ''value'') (\<lambda>v.
       Inr (el ''div'' [] ''tx-entry''
         [el ''p'' (lit ''Output '' @ n @ (if truthy tr then lit '' / Literacy treasury'' else [])) [] [],
          el ''code'' addr ''tx-address'' [], el ''span'' (v @ lit '' SLTHY'') [] []]))))))"

fun js_map :: "('a \<Rightarrow> 'b js) \<Rightarrow> 'a list \<Rightarrow> 'b list js" where
  "js_map f [] = Inr []"
| "js_map f (x # xs) = rbind (f x) (\<lambda>y. rbind (js_map f xs) (\<lambda>ys. Inr (y # ys)))"

text \<open>
  The lists of a transaction and of a block. They are arrays in every validated report, the only
  ones the page renders.

  An exception while the elements of a transaction or of a table row are being built would leave
  them half built, and the model then shows none of them. It does not occur: every block the page
  holds was validated (\<open>explorer_reachable_blocks\<close>), and for validated blocks \<open>render_tx_total\<close> and
  \<open>render_row_total\<close> give the complete elements. The search can throw, before it starts an element;
  that is in \<open>render_list\<close>.
\<close>

definition list_of :: "jsval \<Rightarrow> string \<Rightarrow> jsval list" where
  "list_of v k = elems (opt_get v k)"

definition exceeds :: "jsval \<Rightarrow> nat \<Rightarrow> bool" where
  "exceeds n k = (case n of JNum x \<Rightarrow> num_lt (Fin (of_nat k)) x | _ \<Rightarrow> False)"

definition render_tx :: "js_env \<Rightarrow> jsval \<Rightarrow> jsval \<Rightarrow> bool \<Rightarrow> jsstr list \<Rightarrow> node js" where
  "render_tx env block tx searching opened =
     rbind (string_prop env tx ''txid'') (\<lambda>id.
     rbind (string_prop env block ''height'') (\<lambda>height.
     rbind (get tx ''coinbase'') (\<lambda>cb.
     rbind (get block ''confirmations'') (\<lambda>conf.
     rbind (to_string env conf) (\<lambda>confs.
     rbind (get block ''time'') (\<lambda>bt.
     rbind (time env bt) (\<lambda>btime.
     rbind (js_map (render_input env) (list_of tx ''inputs'')) (\<lambda>ins.
     rbind (js_map (render_output env) (list_of tx ''outputs'')) (\<lambda>outs.
     rbind (get tx ''inputCount'') (\<lambda>ni.
     rbind (get tx ''outputCount'') (\<lambda>no.
     rbind (if exceeds ni (length (list_of tx ''inputs'')) \<or> exceeds no (length (list_of tx ''outputs''))
            then rbind (to_string env ni) (\<lambda>nis. rbind (to_string env no) (\<lambda>nos.
              Inr [el ''p'' (lit ''Showing the first 16 inputs and outputs. Total: '' @ nis @ lit '' inputs, '' @
                             nos @ lit '' outputs.'') [] []]))
            else Inr []) (\<lambda>note.
       Inr (Node ''details'' ''explorer-transaction'' [] (Some id) (searching \<or> id \<in> set opened)
         ([el ''summary'' [] []
             [el ''span'' (lit ''Block '' @ height @
                lit (if truthy cb then '' / Mining reward'' else '' / Transaction'')) [] [],
              el ''code'' id ''tx-address'' []],
           el ''p'' (confs @ lit (if conf = JNum (Fin 1) then '' confirmation'' else '' confirmations'') @
                    lit '' at last update. Block time: '' @ btime) [] [],
           el ''h3'' (lit ''Inputs'') [] []] @ ins @ [el ''h3'' (lit ''Outputs'') [] []] @ outs @ note))))))))))))))"

section \<open>Searching\<close>

fun substring :: "jsstr \<Rightarrow> jsstr \<Rightarrow> bool" where
  "substring q [] = (q = [])"
| "substring q (c # s) = (take (length q) (c # s) = q \<or> substring q s)"

text \<open>The method \<^verbatim>\<open>includes\<close> of a string or an array; no other value has one.\<close>

definition js_includes :: "jsval \<Rightarrow> jsstr \<Rightarrow> bool js" where
  "js_includes v q = (case v of JStr s \<Rightarrow> Inr (substring q s) | JArr xs \<Rightarrow> Inr (JStr q \<in> set xs) | _ \<Rightarrow> Inl TypeError)"

definition matches_query :: "jsstr \<Rightarrow> jsval \<Rightarrow> bool js" where
  "matches_query query tx =
     js_or (rbind (get tx ''txid'') (\<lambda>id. js_includes id query))
       (js_some (\<lambda>e. rbind (get e ''address'') (\<lambda>a. js_includes (or_else a []) query))
          (list_of tx ''inputs'' @ list_of tx ''outputs''))"

fun render_list :: "js_env \<Rightarrow> jsstr \<Rightarrow> jsstr list \<Rightarrow> (jsval \<times> jsval) list \<Rightarrow> node list \<times> unit js" where
  "render_list env query opened [] = ([], Inr ())"
| "render_list env query opened ((block, tx) # rest) =
     (case (if query = [] then Inr True else matches_query query tx) of
        Inl e \<Rightarrow> ([], Inl e)
      | Inr False \<Rightarrow> render_list env query opened rest
      | Inr True \<Rightarrow>
          (case render_tx env block tx (query \<noteq> []) opened of
             Inl e \<Rightarrow> ([], Inl e)
           | Inr n \<Rightarrow> (n # fst (render_list env query opened rest), snd (render_list env query opened rest))))"

section \<open>The page\<close>

record page =
  blocks :: "jsval list"
  busy :: bool
  snapshot :: "jsval option"
  search_value :: jsstr
  texts :: "string \<rightharpoonup> jsstr"
  block_rows :: "node list"
  tx_nodes :: "node list"
  pending :: nat

definition set_text :: "string \<Rightarrow> jsstr \<Rightarrow> page \<Rightarrow> page" where
  "set_text selector text p =
     (case texts p selector of None \<Rightarrow> p | Some _ \<Rightarrow> p\<lparr>texts := (texts p)(selector \<mapsto> text)\<rparr>)"

definition block_txs :: "jsval list \<Rightarrow> (jsval \<times> jsval) list" where
  "block_txs bs = concat (map (\<lambda>b. map (Pair b) (list_of b ''transactions'')) bs)"

definition opened_ids :: "node list \<Rightarrow> jsstr list" where
  "opened_ids ns = concat (map (\<lambda>n. case txid n of Some t \<Rightarrow> if is_open n then [t] else [] | None \<Rightarrow> []) ns)"

type_synonym action = "page \<Rightarrow> page \<times> unit js"

definition renderTransactions :: "js_env \<Rightarrow> action" where
  "renderTransactions env p =
     (let opened = opened_ids (tx_nodes p);
          query = trim (search_value p);
          (ns, r) = render_list env query opened (block_txs (blocks p)) in
      case r of Inl e \<Rightarrow> (p\<lparr>tx_nodes := ns\<rparr>, Inl e)
      | Inr _ \<Rightarrow>
          (set_text ''[data-transaction-count]''
             (digits (length ns) @ lit (if length ns = 1 then '' transaction shown.'' else '' transactions shown.'') @
              lit '' Search checks the transactions below.'')
             (p\<lparr>tx_nodes := (if ns = [] then
                 [el ''p'' (lit (if query \<noteq> [] then ''No match in the details shown here. Some transactions and addresses are outside this list.''
                               else ''No transaction details are available yet.'')) [] []]
               else ns)\<rparr>), Inr ()))"

definition cell :: "jsstr \<Rightarrow> node" where
  "cell s = el ''td'' s [] []"

definition render_row :: "js_env \<Rightarrow> jsval \<Rightarrow> node js" where
  "render_row env block =
     rbind (rbind (get block ''height'') (text_content env)) (\<lambda>h.
     rbind (rbind (get block ''time'') (time env)) (\<lambda>t.
     rbind (rbind (get block ''hash'') (text_content env)) (\<lambda>x.
     rbind (rbind (get block ''transactionCount'') (text_content env)) (\<lambda>n.
     rbind (string_prop env block ''minerSubsidyEstimate'') (\<lambda>m.
     rbind (string_prop env block ''treasurySubsidyEstimate'') (\<lambda>s.
     rbind (rbind (get block ''difficulty'') (text_content env)) (\<lambda>d.
       Inr (el ''tr'' [] [] (map cell [h, t, x, n, m @ lit '' SLTHY'', s @ lit '' SLTHY'', d])))))))))"

definition renderBlocks :: "js_env \<Rightarrow> action" where
  "renderBlocks env p =
     (case js_map (render_row env) (blocks p) of
        Inl e \<Rightarrow> (p\<lparr>block_rows := []\<rparr>, Inl e)
      | Inr rows \<Rightarrow> renderTransactions env (p\<lparr>block_rows := rows\<rparr>))"

definition markUnavailable :: "page \<Rightarrow> page" where
  "markUnavailable p =
     set_text ''[data-explorer-mining]'' (lit ''Unknown'') (set_text ''[data-explorer-peers]'' (lit ''Unknown'')
       (set_text ''[data-explorer-height]'' (lit ''Unavailable'')
         (set_text ''[data-explorer-notice]'' (lit ''The explorer could not refresh. Details below may be out of date.'') p)))"

definition expire :: "js_env \<Rightarrow> jsnum \<Rightarrow> action" where
  "expire env now p =
     (case snapshot p of None \<Rightarrow> (p, Inr ())
      | Some d \<Rightarrow>
          (if truthy d then
             (case fresh env d now of Inl e \<Rightarrow> (p, Inl e)
              | Inr f \<Rightarrow> if f then (p, Inr ()) else (markUnavailable (p\<lparr>snapshot := None\<rparr>), Inr ()))
           else (p, Inr ())))"

definition act_seq :: "action \<Rightarrow> action \<Rightarrow> action" where
  "act_seq f g p = (case f p of (q, Inl e) \<Rightarrow> (q, Inl e) | (q, Inr _) \<Rightarrow> g q)"

definition set_js :: "string \<Rightarrow> jsstr js \<Rightarrow> action" where
  "set_js selector m p = (case m of Inl e \<Rightarrow> (p, Inl e) | Inr s \<Rightarrow> (set_text selector s p, Inr ()))"

text \<open>The body of the \<^verbatim>\<open>try\<close> block of \<^verbatim>\<open>refresh\<close> from the assignment of \<^verbatim>\<open>blocks\<close> on.\<close>

definition mining_text :: "jsval \<Rightarrow> jsstr" where
  "mining_text data =
     (let a = opt_get (opt_get data ''mining'') ''active'' in
      lit (if a = JBool True then ''On'' else if a = JBool False then ''Off'' else ''Unknown''))"

definition show_report :: "js_env \<Rightarrow> jsval \<Rightarrow> action" where
  "show_report env data = foldr act_seq
     [\<lambda>p. (p\<lparr>blocks := list_of data ''blocks''\<rparr>, Inr ()),
      set_js ''[data-explorer-height]'' (rbind (get data ''height'') (text_content env)),
      set_js ''[data-explorer-peers]'' (rbind (get data ''peerCount'') (text_content env)),
      set_js ''[data-explorer-mining]'' (Inr (mining_text data)),
      set_js ''[data-explorer-updated]'' (rbind (get data ''updatedAt'') (time env)),
      set_js ''[data-explorer-best]'' (rbind (get data ''bestBlockHash'') (text_content env)),
      set_js ''[data-explorer-notice]'' (Inr (lit ''Recent confirmed transactions. Pending transactions are not included.'')),
      renderBlocks env]
     (\<lambda>p. (p\<lparr>snapshot := Some data\<rparr>, Inr ()))"

definition refresh_start :: "page \<Rightarrow> page" where
  "refresh_start p = (if busy p then p else p\<lparr>busy := True, pending := pending p + 1\<rparr>)"

definition refresh_done :: "js_env \<Rightarrow> jsnum \<Rightarrow> jsval js \<Rightarrow> page \<Rightarrow> page" where
  "refresh_done env now result p =
     (let p' = p\<lparr>pending := pending p - 1\<rparr>;
          (q, r) = (case result of Inl e \<Rightarrow> (p', Inl e)
                    | Inr data \<Rightarrow> (case validate env data now of
                        Inr True \<Rightarrow> show_report env data p'
                      | Inr False \<Rightarrow> (p', Inl (Thrown (lit ''Invalid or stale feed'')))
                      | Inl e \<Rightarrow> (p', Inl e))) in
      (case r of Inl _ \<Rightarrow> markUnavailable (q\<lparr>snapshot := None\<rparr>) | Inr _ \<Rightarrow> q)\<lparr>busy := False\<rparr>)"

definition explorer_path :: jsstr where
  "explorer_path = lit ''/data/explorer.json''"

definition explorer_maxBytes :: nat where
  "explorer_maxBytes = 4194304"

text \<open>The rest of \<^verbatim>\<open>refresh\<close> once the download has settled.\<close>

definition explorer_refresh :: "js_env \<Rightarrow> jsnum \<Rightarrow> response js \<Rightarrow> page \<Rightarrow> page" where
  "explorer_refresh env now fetched p = refresh_done env now (snd (read explorer_path explorer_maxBytes fetched)) p"

text \<open>
  The search box starts with the transaction named in the address bar, when that is a hash, in
  lower case; then the first download starts.
\<close>

definition to_lower :: "nat \<Rightarrow> nat" where
  "to_lower c = (if is_upper c then c + 32 else c)"

definition explorer_init :: "(string \<rightharpoonup> jsstr) \<Rightarrow> jsstr \<Rightarrow> jsstr option \<Rightarrow> page" where
  "explorer_init elements typed linked = refresh_start
     \<lparr>blocks = [], busy = False, snapshot = None,
      search_value = (case linked of Some s \<Rightarrow> if s \<noteq> [] \<and> re_test hash_re s then map to_lower s else typed
                      | None \<Rightarrow> typed),
      texts = elements, block_rows = [], tx_nodes = [], pending = 0\<rparr>"

inductive explorer_step :: "js_env \<Rightarrow> page \<Rightarrow> page \<Rightarrow> bool" for env where
  interval: "explorer_step env p (refresh_start p)"
| finished: "0 < pending p \<Longrightarrow> explorer_step env p (refresh_done env now result p)"
| expired: "explorer_step env p (fst (expire env now p))"
| typed: "explorer_step env p (fst (renderTransactions env (p\<lparr>search_value := s\<rparr>)))"
| toggled: "i < length (tx_nodes p) \<Longrightarrow> tx_nodes p ! i = Node t c x i0 b ks \<Longrightarrow>
    explorer_step env p (p\<lparr>tx_nodes := (tx_nodes p)[i := Node t c x i0 (\<not> b) ks]\<rparr>)"
| visible: "explorer_step env p (fst (act_seq (expire env now) (\<lambda>q. (refresh_start q, Inr ())) p))"

inductive explorer_reachable :: "js_env \<Rightarrow> (string \<rightharpoonup> jsstr) \<Rightarrow> page \<Rightarrow> bool" for env elements where
  start: "explorer_reachable env elements (explorer_init elements s linked)"
| step: "explorer_reachable env elements p \<Longrightarrow> explorer_step env p q \<Longrightarrow> explorer_reachable env elements q"

section \<open>What validation guarantees\<close>

lemma every_in_True: "every_in f v k = Inr True \<longleftrightarrow> (\<exists>x. get v k = Inr x \<and> (\<forall>y \<in> set (elems x). f y = Inr True))"
  by (cases "get v k") (auto simp: every_in_def js_every_True)

lemmas valid_conds = conds_True every_in_True

lemma hashE: "hash v \<Longrightarrow> (\<And>s. v = JStr s \<Longrightarrow> P) \<Longrightarrow> P"
  by (cases v) (auto simp: hash_def)

lemma amountE: "amount v \<Longrightarrow> (\<And>s. v = JStr s \<Longrightarrow> P) \<Longrightarrow> P"
  by (cases v) (auto simp: amount_def)

lemma finiteE: "isFinite v \<Longrightarrow> (\<And>n. v = JNum n \<Longrightarrow> P) \<Longrightarrow> P"
  by (cases v) auto

lemma short_stringE: "(case v of JStr s \<Rightarrow> length s \<le> m | _ \<Rightarrow> False) \<Longrightarrow> (\<And>s. v = JStr s \<Longrightarrow> P) \<Longrightarrow> P"
  by (cases v) auto

lemmas value_elims = hashE amountE finiteE short_stringE

lemma list_of_get: "get v k = Inr x \<Longrightarrow> list_of v k = elems x"
  by (simp add: list_of_def opt_get_def)

lemma integer_cases: "integer v \<Longrightarrow> \<exists>q. v = JNum (Fin q)"
  by (cases v rule: isSafeInteger.cases) (auto simp: integer_def)

lemma address_cases: "address v \<Longrightarrow> v = JNull \<or> (\<exists>s. v = JStr s \<and> length s \<le> 128)"
  by (cases v) (auto simp: address_def)

lemma hash_iff: "hash (JStr s) \<longleftrightarrow> length s = 64 \<and> list_all is_hex s"
  by (simp add: hash_def hash_re_def re_test_lang lang_re_rep_class del: re_rep_numeral)

section \<open>Validated reports can be displayed\<close>

lemma js_map_total:
  assumes "\<And>x. x \<in> set xs \<Longrightarrow> \<exists>y. f x = Inr y"
  shows "\<exists>ys. js_map f xs = Inr ys \<and> length ys = length xs"
  using assms
proof (induction xs)
  case (Cons x xs)
  then obtain y ys where "f x = Inr y" "js_map f xs = Inr ys" "length ys = length xs" by fastforce
  then show ?case by simp
qed simp

lemma render_input_total: "valid_input i = Inr True \<Longrightarrow> \<exists>n. render_input env i = Inr n"
proof -
  assume v: "valid_input i = Inr True"
  show ?thesis
  proof (cases "get i ''coinbase'' = Inr (JBool True)")
    case True
    then show ?thesis by (simp add: render_input_def)
  next
    case False
    then obtain id vo a x where f: "get i ''txid'' = Inr id" "hash id" "get i ''vout'' = Inr vo" "integer vo"
      "get i ''address'' = Inr a" "address a" "get i ''value'' = Inr x" "x = JNull \<or> amount x"
      using v by (auto simp: valid_input_def valid_conds)
    obtain cb where cb: "get i ''coinbase'' = Inr cb" using get_other [OF f(1)] by blast
    show ?thesis
      using f cb integer_cases [OF f(4)] address_cases [OF f(6)]
      by (auto elim!: hashE amountE simp: render_input_def text_content_def or_else_def string_prop_def)
  qed
qed

lemma render_output_total: "valid_output x = Inr True \<Longrightarrow> \<exists>n. render_output env x = Inr n"
proof -
  assume v: "valid_output x = Inr True"
  then obtain n a t y tr where f: "get x ''n'' = Inr n" "integer n" "get x ''address'' = Inr a" "address a"
    "get x ''type'' = Inr (JStr t)" "get x ''value'' = Inr (JStr y)" "get x ''treasury'' = Inr tr"
    by (auto simp: valid_output_def valid_conds elim!: value_elims)
  show ?thesis
    using f integer_cases [OF f(2)] address_cases [OF f(4)]
    by (auto simp: render_output_def text_content_def or_else_def string_prop_def)
qed

lemma valid_txE:
  assumes "valid_tx tx = Inr True"
  obtains s cb ni no xs ys where "get tx ''txid'' = Inr (JStr s)" "get tx ''coinbase'' = Inr cb"
    "get tx ''inputCount'' = Inr ni" "integer ni" "get tx ''outputCount'' = Inr no" "integer no"
    "list_of tx ''inputs'' = xs" "length xs \<le> 16" "\<forall>i \<in> set xs. valid_input i = Inr True"
    "list_of tx ''outputs'' = ys" "length ys \<le> 16" "\<forall>i \<in> set ys. valid_output i = Inr True"
  using assms
  by (auto simp: valid_tx_def valid_conds array_upto_def list_of_get elim!: value_elims)

lemma valid_blockE:
  assumes "valid_block h b = Inr True"
  obtains bh hs tm cf ct df ms ts txs where "get b ''height'' = Inr bh" "integer bh" "get b ''hash'' = Inr (JStr hs)"
    "get b ''time'' = Inr tm" "integer tm" "get b ''confirmations'' = Inr cf" "integer cf"
    "get b ''transactionCount'' = Inr ct" "integer ct" "get b ''difficulty'' = Inr (JNum df)"
    "get b ''minerSubsidyEstimate'' = Inr (JStr ms)" "get b ''treasurySubsidyEstimate'' = Inr (JStr ts)"
    "list_of b ''transactions'' = txs" "length txs \<le> 8" "\<forall>t \<in> set txs. valid_tx t = Inr True"
  using assms by (auto simp: valid_block_def valid_conds array_upto_def list_of_get elim!: value_elims)

lemma text_content_simps [simp]: "text_content env (JStr s) = Inr s" "text_content env (JNum n) = Inr (num_string env n)"
  by (simp_all add: text_content_def)

lemma time_integer: "integer v \<Longrightarrow> \<exists>s. time env v = Inr s"
  using integer_cases [of v] by (auto simp: time_def)

lemma text_integer: "integer v \<Longrightarrow> \<exists>s. to_string env v = Inr s \<and> text_content env v = Inr s"
  using integer_cases [of v] by (auto simp: text_content_def)

lemma render_tx_total:
  assumes "valid_block h b = Inr True" "valid_tx tx = Inr True"
  shows "\<exists>n. render_tx env b tx searching opened = Inr n \<and> length (kids n) \<le> 37 \<and>
    (\<exists>s. get tx ''txid'' = Inr (JStr s) \<and> txid n = Some s)"
proof -
  obtain s cb ni no xs ys where t: "get tx ''txid'' = Inr (JStr s)" "get tx ''coinbase'' = Inr cb"
    "get tx ''inputCount'' = Inr ni" "integer ni" "get tx ''outputCount'' = Inr no" "integer no"
    "list_of tx ''inputs'' = xs" "length xs \<le> 16" "\<forall>i \<in> set xs. valid_input i = Inr True"
    "list_of tx ''outputs'' = ys" "length ys \<le> 16" "\<forall>i \<in> set ys. valid_output i = Inr True"
    by (rule valid_txE [OF assms(2)])
  obtain bh tm cf where b: "get b ''height'' = Inr bh" "integer bh" "get b ''time'' = Inr tm" "integer tm"
    "get b ''confirmations'' = Inr cf" "integer cf" by (rule valid_blockE [OF assms(1)])
  obtain ins where ins: "js_map (render_input env) xs = Inr ins" "length ins = length xs"
    using js_map_total [of xs "render_input env"] t(9) render_input_total by blast
  obtain outs where outs: "js_map (render_output env) ys = Inr outs" "length outs = length ys"
    using js_map_total [of ys "render_output env"] t(12) render_output_total by blast
  obtain hs where hs: "to_string env bh = Inr hs" using text_integer [OF b(2)] by blast
  obtain ts where ts: "time env tm = Inr ts" using time_integer [OF b(4)] by blast
  obtain cs where cs: "to_string env cf = Inr cs" using text_integer [OF b(6)] by blast
  obtain nis where nis: "to_string env ni = Inr nis" using text_integer [OF t(4)] by blast
  obtain nos where nos: "to_string env no = Inr nos" using text_integer [OF t(6)] by blast
  show ?thesis
    using t(1,2,3,5,7,10) b(1,3,5) ins outs hs ts cs nis nos t(8,11)
    by (simp add: render_tx_def string_prop_def)
qed

lemma render_row_total:
  assumes "valid_block h b = Inr True"
  shows "\<exists>n. render_row env b = Inr n"
proof -
  obtain bh hs tm ct df ms ts where b: "get b ''height'' = Inr bh" "integer bh" "get b ''hash'' = Inr (JStr hs)"
    "get b ''time'' = Inr tm" "integer tm" "get b ''transactionCount'' = Inr ct" "integer ct"
    "get b ''difficulty'' = Inr (JNum df)" "get b ''minerSubsidyEstimate'' = Inr (JStr ms)"
    "get b ''treasurySubsidyEstimate'' = Inr (JStr ts)" by (rule valid_blockE [OF assms])
  obtain x y z where "text_content env bh = Inr x" "time env tm = Inr y" "text_content env ct = Inr z"
    using text_integer [OF b(2)] time_integer [OF b(5)] text_integer [OF b(7)] by blast
  then show ?thesis using b by (simp add: render_row_def string_prop_def)
qed

lemma block_txs_valid:
  assumes "\<forall>b \<in> set bs. valid_block h b = Inr True" "(b, tx) \<in> set (block_txs bs)"
  shows "valid_block h b = Inr True" "valid_tx tx = Inr True"
proof -
  have b: "b \<in> set bs" "tx \<in> set (list_of b ''transactions'')" using assms(2) by (auto simp: block_txs_def)
  then show "valid_block h b = Inr True" using assms(1) by blast
  then obtain txs where "list_of b ''transactions'' = txs" "\<forall>t \<in> set txs. valid_tx t = Inr True"
    by (rule valid_blockE)
  then show "valid_tx tx = Inr True" using b(2) by blast
qed

lemma block_txs_bound:
  assumes "\<forall>b \<in> set bs. valid_block h b = Inr True"
  shows "length (block_txs bs) \<le> 8 * length bs"
  using assms
proof (induction bs)
  case (Cons b bs)
  then have "valid_block h b = Inr True" by simp
  then have "length (list_of b ''transactions'') \<le> 8" by (rule valid_blockE) simp
  then show ?case using Cons by (simp add: block_txs_def)
qed (simp add: block_txs_def)

text \<open>The transactions that a search shows.\<close>

definition shown :: "jsstr \<Rightarrow> jsval \<times> jsval \<Rightarrow> bool" where
  "shown query bt \<longleftrightarrow> query = [] \<or> matches_query query (snd bt) = Inr True"

lemma render_list_spec:
  assumes "\<And>b tx. (b, tx) \<in> set bts \<Longrightarrow> valid_block h b = Inr True \<and> valid_tx tx = Inr True"
    and "\<And>b tx. (b, tx) \<in> set bts \<Longrightarrow> query = [] \<or> is_ok (matches_query query tx)"
  shows "snd (render_list env query opened bts) = Inr () \<and>
    map (\<lambda>n. map_option JStr (txid n)) (fst (render_list env query opened bts)) =
      map (\<lambda>(b, tx). Some (opt_get tx ''txid'')) (filter (shown query) bts) \<and>
    (\<forall>n \<in> set (fst (render_list env query opened bts)). length (kids n) \<le> 37)"
  using assms
proof (induction bts)
  case (Cons bt bts)
  obtain b tx where bt: "bt = (b, tx)" by fastforce
  have ih: "snd (render_list env query opened bts) = Inr () \<and>
      map (\<lambda>n. map_option JStr (txid n)) (fst (render_list env query opened bts)) =
       map (\<lambda>(b, tx). Some (opt_get tx ''txid'')) (filter (shown query) bts) \<and>
      (\<forall>n \<in> set (fst (render_list env query opened bts)). length (kids n) \<le> 37)"
    by (rule Cons.IH) (use Cons.prems in \<open>meson list.set_intros(2)\<close>)+
  have v: "valid_block h b = Inr True" "valid_tx tx = Inr True" using Cons.prems(1) [of b tx] bt by simp_all
  obtain n s where n: "render_tx env b tx (query \<noteq> []) opened = Inr n" "length (kids n) \<le> 37"
    "get tx ''txid'' = Inr (JStr s)" "txid n = Some s"
    using render_tx_total [OF v] by blast
  show ?case
  proof (cases "shown query bt")
    case True
    then have "(if query = [] then Inr True else matches_query query tx) = Inr True" using bt by (auto simp: shown_def)
    then show ?thesis using True bt n ih by (simp add: opt_get_def)
  next
    case False
    then have "query \<noteq> []" "matches_query query tx = Inr False"
      using Cons.prems(2) [of b tx] bt by (auto simp: shown_def is_ok.simps elim: is_ok.elims)
    then show ?thesis using False bt ih by simp
  qed
qed simp

text \<open>
  What a search is to find, stated without the search itself: the text occurs in the transaction's id
  or in the address of one of its inputs or outputs. Validation checks every address but those of the
  mining inputs; a transaction is searchable when these are strings or absent.
\<close>

definition occurs_in :: "jsstr \<Rightarrow> jsval \<Rightarrow> bool" where
  "occurs_in query v \<longleftrightarrow> (\<exists>before after. v = JStr (before @ query @ after))"

definition mentions :: "jsstr \<Rightarrow> jsval \<Rightarrow> bool" where
  "mentions query tx \<longleftrightarrow> occurs_in query (opt_get tx ''txid'') \<or>
     (\<exists>i \<in> set (elems (opt_get tx ''inputs'')). occurs_in query (opt_get i ''address'')) \<or>
     (\<exists>x \<in> set (elems (opt_get tx ''outputs'')). occurs_in query (opt_get x ''address''))"

definition searchable :: "jsval \<Rightarrow> bool" where
  "searchable tx \<longleftrightarrow> (\<forall>i \<in> set (elems (opt_get tx ''inputs'')). opt_get i ''coinbase'' = JBool True \<longrightarrow>
     is_string (opt_get i ''address'') \<or> \<not> truthy (opt_get i ''address''))"

lemma substring_iff: "substring q s \<longleftrightarrow> (\<exists>before after. s = before @ q @ after)"
proof (induction s)
  case (Cons c s)
  have "take (length q) (c # s) = q \<longleftrightarrow> (\<exists>after. c # s = q @ after)"
    by (metis append_eq_conv_conj append_take_drop_id)
  then show ?case using Cons by (metis append_Cons append_Nil list.inject neq_Nil_conv substring.simps(2))
qed simp

lemma includes_address:
  assumes "get e ''address'' = Inr a" "is_string a \<or> \<not> truthy a" "query \<noteq> []"
  shows "rbind (get e ''address'') (\<lambda>a. js_includes (or_else a []) query) = Inr (occurs_in query (opt_get e ''address''))"
  using assms by (cases a) (auto simp: js_includes_def or_else_def opt_get_def occurs_in_def substring_iff)

lemma js_some_total: "(\<And>x. x \<in> set xs \<Longrightarrow> f x = Inr (P x)) \<Longrightarrow> js_some f xs = Inr (\<exists>x \<in> set xs. P x)"
  by (induction xs) (simp_all add: js_or_def)

lemma matches_query_valid:
  assumes "valid_tx tx = Inr True" "searchable tx" "query \<noteq> []"
  shows "matches_query query tx = Inr (mentions query tx)"
proof -
  obtain s where tx: "get tx ''txid'' = Inr (JStr s)" "\<forall>i \<in> set (list_of tx ''inputs''). valid_input i = Inr True"
    "\<forall>x \<in> set (list_of tx ''outputs''). valid_output x = Inr True" by (rule valid_txE [OF assms(1)]) blast
  have i: "\<exists>a. get i ''address'' = Inr a \<and> (is_string a \<or> \<not> truthy a)" if "i \<in> set (list_of tx ''inputs'')" for i
  proof (cases "get i ''coinbase'' = Inr (JBool True)")
    case True
    then obtain a where "get i ''address'' = Inr a" using get_other by blast
    then show ?thesis using True assms(2) that by (auto simp: searchable_def list_of_def opt_get_def)
  next
    case False
    then show ?thesis using tx(2) that address_cases by (fastforce simp: valid_input_def valid_conds)
  qed
  have o: "\<exists>a. get x ''address'' = Inr a \<and> (is_string a \<or> \<not> truthy a)" if "x \<in> set (list_of tx ''outputs'')" for x
    using tx(3) that address_cases by (fastforce simp: valid_output_def valid_conds)
  have "js_some (\<lambda>e. rbind (get e ''address'') (\<lambda>a. js_includes (or_else a []) query))
      (list_of tx ''inputs'' @ list_of tx ''outputs'') =
    Inr (\<exists>e \<in> set (list_of tx ''inputs'' @ list_of tx ''outputs''). occurs_in query (opt_get e ''address''))"
    using i o includes_address [OF _ _ assms(3)] by (intro js_some_total) fastforce
  then show ?thesis using tx(1)
    by (auto simp: matches_query_def mentions_def js_or_def js_includes_def list_of_def occurs_in_def substring_iff opt_get_def)
qed

section \<open>The parts of the page that an action leaves alone\<close>

lemma set_text_frame [simp]:
  "snapshot (set_text c t p) = snapshot p" "busy (set_text c t p) = busy p" "pending (set_text c t p) = pending p"
  "blocks (set_text c t p) = blocks p" "search_value (set_text c t p) = search_value p"
  "tx_nodes (set_text c t p) = tx_nodes p" "block_rows (set_text c t p) = block_rows p"
  "dom (texts (set_text c t p)) = dom (texts p)"
  by (auto simp: set_text_def split: option.splits)

lemma set_text_busy: "(set_text c t p)\<lparr>busy := b\<rparr> = set_text c t (p\<lparr>busy := b\<rparr>)"
  by (simp add: set_text_def split: option.split)

lemma set_text_texts: "texts (set_text c t p) c' = (if c = c' then map_option (\<lambda>_. t) (texts p c) else texts p c')"
  by (auto simp: set_text_def split: option.splits)

lemma renderTransactions_frame:
  fixes env p
  defines "q \<equiv> fst (renderTransactions env p)"
  shows "snapshot q = snapshot p" "busy q = busy p" "pending q = pending p" "blocks q = blocks p"
    "search_value q = search_value p" "block_rows q = block_rows p" "dom (texts q) = dom (texts p)"
    "c \<noteq> ''[data-transaction-count]'' \<Longrightarrow> texts q c = texts p c"
  by (auto simp: q_def renderTransactions_def Let_def set_text_texts split: prod.splits sum.splits)

lemma renderBlocks_frame:
  fixes env p
  defines "q \<equiv> fst (renderBlocks env p)"
  shows "snapshot q = snapshot p" "busy q = busy p" "pending q = pending p" "dom (texts q) = dom (texts p)"
    "c \<noteq> ''[data-transaction-count]'' \<Longrightarrow> texts q c = texts p c"
  by (auto simp: q_def renderBlocks_def renderTransactions_frame split: sum.splits)

lemma markUnavailable_frame [simp]:
  "snapshot (markUnavailable p) = snapshot p" "busy (markUnavailable p) = busy p"
  "pending (markUnavailable p) = pending p" "dom (texts (markUnavailable p)) = dom (texts p)"
  "texts (markUnavailable p) ''[data-explorer-height]'' =
     map_option (\<lambda>_. lit ''Unavailable'') (texts p ''[data-explorer-height]'')"
  by (simp_all add: markUnavailable_def set_text_texts)

section \<open>Displaying a validated report\<close>

lemma validateE:
  assumes "validate env d now = Inr True"
  obtains h pc s bs where "truthy d" "fresh env d now = Inr True" "get d ''height'' = Inr h" "integer h"
    "get d ''peerCount'' = Inr pc" "integer pc" "get d ''bestBlockHash'' = Inr (JStr s)"
    "list_of d ''blocks'' = bs" "length bs \<le> 25" "\<forall>b \<in> set bs. valid_block h b = Inr True"
  using assms by (auto simp: validate_def valid_conds array_upto_def list_of_get rbind_Inr_iff elim!: value_elims)

lemma fresh_okE:
  assumes "truthy d" "fresh env d now = Inr f"
  obtains u s where "get d ''updatedAt'' = Inr u" "to_string env u = Inr s"
  using assms by (auto simp: fresh_def rbind_Inr_iff)

lemma fresh_again:
  assumes "truthy d" "fresh env d now = Inr f"
  shows "\<exists>g. fresh env d now' = Inr g"
  by (rule fresh_okE [OF assms]) (use assms(1) in \<open>simp add: fresh_def Let_def\<close>)

lemma time_coercible: "to_string env u = Inr s \<Longrightarrow> \<exists>t. time env u = Inr t"
  by (cases u) (auto simp: time_def new_date_def)

definition report_texts :: "jsval \<Rightarrow> jsstr \<Rightarrow> jsstr \<Rightarrow> jsstr \<Rightarrow> jsstr \<Rightarrow> page \<Rightarrow> page" where
  "report_texts d h pc u s p =
     set_text ''[data-explorer-notice]'' (lit ''Recent confirmed transactions. Pending transactions are not included.'')
      (set_text ''[data-explorer-best]'' s (set_text ''[data-explorer-updated]'' u
       (set_text ''[data-explorer-mining]'' (mining_text d) (set_text ''[data-explorer-peers]'' pc
        (set_text ''[data-explorer-height]'' h (p\<lparr>blocks := list_of d ''blocks''\<rparr>))))))"

lemma show_report_valid:
  assumes "validate env d now = Inr True"
  obtains h pc u s where "rbind (get d ''height'') (text_content env) = Inr h"
    "\<And>p. show_report env d p =
      (case renderBlocks env (report_texts d h pc u s p) of (q, Inl e) \<Rightarrow> (q, Inl e)
       | (q, Inr _) \<Rightarrow> (q\<lparr>snapshot := Some d\<rparr>, Inr ()))"
proof -
  obtain h pc s where v: "truthy d" "fresh env d now = Inr True" "get d ''height'' = Inr h" "integer h"
    "get d ''peerCount'' = Inr pc" "integer pc" "get d ''bestBlockHash'' = Inr (JStr s)"
    by (rule validateE [OF assms])
  obtain u us where u: "get d ''updatedAt'' = Inr u" "to_string env u = Inr us" by (rule fresh_okE [OF v(1,2)])
  obtain ht where ht: "text_content env h = Inr ht" using text_integer [OF v(4)] by blast
  obtain pt where pt: "text_content env pc = Inr pt" using text_integer [OF v(6)] by blast
  obtain ut where ut: "time env u = Inr ut" using time_coercible [OF u(2)] by blast
  have "show_report env d p =
      (case renderBlocks env (report_texts d ht pt ut s p) of (q, Inl e) \<Rightarrow> (q, Inl e)
       | (q, Inr _) \<Rightarrow> (q\<lparr>snapshot := Some d\<rparr>, Inr ()))" for p
    using v u ht pt ut by (simp add: show_report_def act_seq_def set_js_def report_texts_def)
  then show thesis using that ht v(3) by simp
qed

lemma renderBlocks_valid:
  assumes "\<forall>b \<in> set (blocks p). valid_block h b = Inr True" "trim (search_value p) = []"
  shows "\<exists>q. renderBlocks env p = (q, Inr ()) \<and> length (block_rows q) = length (blocks p) \<and>
    length (tx_nodes q) \<le> max 1 (8 * length (blocks p)) \<and> (\<forall>n \<in> set (tx_nodes q). length (kids n) \<le> 37)"
proof -
  obtain rows where rows: "js_map (render_row env) (blocks p) = Inr rows" "length rows = length (blocks p)"
    using js_map_total [of "blocks p" "render_row env"] assms(1) render_row_total by blast
  let ?r = "render_list env [] (opened_ids (tx_nodes p)) (block_txs (blocks p))"
  have spec: "snd ?r = Inr () \<and> map (\<lambda>n. map_option JStr (txid n)) (fst ?r) =
      map (\<lambda>(b, tx). Some (opt_get tx ''txid'')) (filter (shown []) (block_txs (blocks p))) \<and>
      (\<forall>n \<in> set (fst ?r). length (kids n) \<le> 37)"
    by (rule render_list_spec) (use block_txs_valid [OF assms(1)] in auto)
  have "length (fst ?r) = length (block_txs (blocks p))"
    using arg_cong [of _ _ length, OF spec [THEN conjunct2, THEN conjunct1]] by (simp add: shown_def)
  then have len: "length (fst ?r) \<le> 8 * length (blocks p)" using block_txs_bound [OF assms(1)] by simp
  obtain ns where ns: "?r = (ns, Inr ())" using spec by (metis prod.collapse)
  show ?thesis using rows ns len spec assms(2)
    by (auto simp: renderBlocks_def renderTransactions_def Let_def el_def)
qed

section \<open>The page over time\<close>

definition explorer_ok :: "js_env \<Rightarrow> (string \<rightharpoonup> jsstr) \<Rightarrow> page \<Rightarrow> bool" where
  "explorer_ok env elements p \<longleftrightarrow> pending p = (if busy p then 1 else 0) \<and> dom (texts p) = dom elements \<and>
     (case snapshot p of
        None \<Rightarrow> texts p ''[data-explorer-height]'' \<in>
          {elements ''[data-explorer-height]'', map_option (\<lambda>_. lit ''Unavailable'') (elements ''[data-explorer-height]'')}
      | Some d \<Rightarrow> (\<exists>now. validate env d now = Inr True) \<and>
          (\<exists>h. rbind (get d ''height'') (text_content env) = Inr h \<and>
             texts p ''[data-explorer-height]'' = map_option (\<lambda>_. h) (elements ''[data-explorer-height]'')))"

lemma explorer_ok_same:
  assumes "explorer_ok env elements p" "pending q = pending p" "busy q = busy p" "snapshot q = snapshot p"
    "dom (texts q) = dom (texts p)" "texts q ''[data-explorer-height]'' = texts p ''[data-explorer-height]''"
  shows "explorer_ok env elements q"
  using assms(1) unfolding explorer_ok_def assms(2-6) .

lemma unavailable_ok:
  assumes "pending p = (if busy p then 1 else 0)" "dom (texts p) = dom elements" "snapshot p = None"
  shows "explorer_ok env elements (markUnavailable p)"
  using assms map_option_dom [OF assms(2), of "lit ''Unavailable''" "''[data-explorer-height]''"]
  by (simp add: explorer_ok_def)

lemma explorer_ok_init: "explorer_ok env elements (explorer_init elements s linked)"
  by (simp add: explorer_ok_def explorer_init_def refresh_start_def)

lemma refresh_start_ok: "explorer_ok env elements p \<Longrightarrow> explorer_ok env elements (refresh_start p)"
  by (auto simp: explorer_ok_def refresh_start_def split: option.splits)

lemma expire_valid:
  assumes "explorer_ok env elements p"
  shows "snd (expire env now p) = Inr ()" "explorer_ok env elements (fst (expire env now p))"
    and "\<And>d. snapshot (fst (expire env now p)) = Some d \<Longrightarrow> fresh env d now = Inr True"
proof -
  have "snd (expire env now p) = Inr () \<and> explorer_ok env elements (fst (expire env now p)) \<and>
      (\<forall>d. snapshot (fst (expire env now p)) = Some d \<longrightarrow> fresh env d now = Inr True)"
  proof (cases "snapshot p")
    case (Some d)
    then obtain t where v: "validate env d t = Inr True" using assms by (auto simp: explorer_ok_def)
    have tr: "truthy d" and f: "fresh env d t = Inr True" by (rule validateE [OF v], simp)+
    obtain g where g: "fresh env d now = Inr g" using fresh_again [OF tr f] by blast
    have "explorer_ok env elements (markUnavailable (p\<lparr>snapshot := None\<rparr>))"
      using assms by (intro unavailable_ok) (simp_all add: explorer_ok_def)
    then show ?thesis using Some tr g assms by (cases g) (simp_all add: expire_def)
  qed (use assms in \<open>simp add: expire_def\<close>)
  then show "snd (expire env now p) = Inr ()" "explorer_ok env elements (fst (expire env now p))"
    "\<And>d. snapshot (fst (expire env now p)) = Some d \<Longrightarrow> fresh env d now = Inr True" by blast+
qed

lemma report_texts_frame:
  "busy (report_texts d h pc u s p) = busy p" "pending (report_texts d h pc u s p) = pending p"
  "dom (texts (report_texts d h pc u s p)) = dom (texts p)" "blocks (report_texts d h pc u s p) = list_of d ''blocks''"
  "search_value (report_texts d h pc u s p) = search_value p"
  "texts (report_texts d h pc u s p) ''[data-explorer-height]'' = map_option (\<lambda>_. h) (texts p ''[data-explorer-height]'')"
  by (simp_all add: report_texts_def set_text_texts)

lemma show_report_ok:
  assumes "validate env d now = Inr True" "pending p = 0" "dom (texts p) = dom elements" "show_report env d p = (q, r)"
  shows "pending q = 0 \<and> dom (texts q) = dom elements \<and>
    (r = Inr () \<longrightarrow> explorer_ok env elements (q\<lparr>busy := False\<rparr>))"
proof -
  obtain h pc u s where h: "rbind (get d ''height'') (text_content env) = Inr h"
    and sh: "\<And>p. show_report env d p =
      (case renderBlocks env (report_texts d h pc u s p) of (q, Inl e) \<Rightarrow> (q, Inl e)
       | (q, Inr _) \<Rightarrow> (q\<lparr>snapshot := Some d\<rparr>, Inr ()))" by (rule show_report_valid [OF assms(1)]) blast
  obtain b br where b: "renderBlocks env (report_texts d h pc u s p) = (b, br)" by fastforce
  have fr: "pending b = 0" "dom (texts b) = dom elements"
    "texts b ''[data-explorer-height]'' = map_option (\<lambda>_. h) (elements ''[data-explorer-height]'')"
    using renderBlocks_frame(3,4) [of env "report_texts d h pc u s p"]
      renderBlocks_frame(5) [of "''[data-explorer-height]''" env "report_texts d h pc u s p"]
      assms(2,3) map_option_dom [OF assms(3)] b by (simp_all add: report_texts_frame)
  show ?thesis
  proof (cases br)
    case (Inl e)
    then show ?thesis using sh [of p] b assms(4) fr by auto
  next
    case (Inr x)
    then have "q = b\<lparr>snapshot := Some d\<rparr>" using sh [of p] b assms(4) by auto
    then show ?thesis using fr h assms(1) by (auto simp: explorer_ok_def)
  qed
qed

lemma refresh_done_ok:
  assumes "explorer_ok env elements p" "0 < pending p"
  shows "explorer_ok env elements (refresh_done env now result p)"
proof -
  let ?p = "p\<lparr>pending := pending p - 1\<rparr>"
  have p: "pending ?p = 0" "dom (texts ?p) = dom elements"
    using assms by (auto simp: explorer_ok_def split: if_splits)
  have fail: "explorer_ok env elements (markUnavailable (q\<lparr>snapshot := None\<rparr>)\<lparr>busy := False\<rparr>)"
    if "pending q = 0" "dom (texts q) = dom elements" for q
  proof -
    have "markUnavailable (q\<lparr>snapshot := None\<rparr>)\<lparr>busy := False\<rparr> = markUnavailable (q\<lparr>snapshot := None, busy := False\<rparr>)"
      by (simp add: markUnavailable_def set_text_busy)
    moreover have "explorer_ok env elements (markUnavailable (q\<lparr>snapshot := None, busy := False\<rparr>))"
      using that by (intro unavailable_ok) simp_all
    ultimately show ?thesis by simp
  qed
  show ?thesis
  proof (cases "\<exists>d. result = Inr d \<and> validate env d now = Inr True")
    case True
    then obtain d where d: "result = Inr d" "validate env d now = Inr True" by blast
    obtain q r where qr: "show_report env d ?p = (q, r)" by fastforce
    note ok = show_report_ok [OF d(2) p qr]
    have res: "refresh_done env now result p =
        (case r of Inl _ \<Rightarrow> markUnavailable (q\<lparr>snapshot := None\<rparr>) | Inr _ \<Rightarrow> q)\<lparr>busy := False\<rparr>"
      using d qr by (simp add: refresh_done_def Let_def)
    show ?thesis
    proof (cases r)
      case (Inl e)
      then show ?thesis unfolding res Inl sum.case using ok by (intro fail) simp_all
    next
      case (Inr x)
      then show ?thesis unfolding res Inr sum.case using ok Inr by simp
    qed
  next
    case False
    then have "refresh_done env now result p = markUnavailable (?p\<lparr>snapshot := None\<rparr>)\<lparr>busy := False\<rparr>"
    proof (cases result)
      case (Inr d)
      then show ?thesis using False by (cases "validate env d now") (auto simp: refresh_done_def Let_def)
    qed (simp add: refresh_done_def Let_def)
    then show ?thesis using fail [OF p] by simp
  qed
qed

lemma explorer_step_ok:
  assumes "explorer_step env p q" "explorer_ok env elements p"
  shows "explorer_ok env elements q"
  using assms
proof (induction rule: explorer_step.induct)
  case (finished p now result)
  then show ?case by (intro refresh_done_ok)
next
  case (typed p s)
  show ?case by (rule explorer_ok_same [OF typed]) (simp_all add: renderTransactions_frame)
next
  case (toggled i p t c x i0 b ks)
  show ?case by (rule explorer_ok_same [OF toggled(3)]) simp_all
next
  case (visible p now)
  have "act_seq (expire env now) (\<lambda>q. (refresh_start q, Inr ())) p = (refresh_start (fst (expire env now p)), Inr ())"
    using expire_valid(1) [OF visible, of now] by (cases "expire env now p") (simp add: act_seq_def)
  then show ?case using expire_valid(2) [OF visible] refresh_start_ok by simp
qed (simp_all add: refresh_start_ok expire_valid(2))

lemma explorer_reachable_ok: "explorer_reachable env elements p \<Longrightarrow> explorer_ok env elements p"
  by (induction rule: explorer_reachable.induct) (auto intro: explorer_ok_init explorer_step_ok)

lemma renderBlocks_blocks: "blocks (fst (renderBlocks env p)) = blocks p"
  by (simp add: renderBlocks_def renderTransactions_frame split: sum.splits)

lemma markUnavailable_blocks [simp]: "blocks (markUnavailable p) = blocks p"
  by (simp add: markUnavailable_def)

lemma refresh_done_cases:
  obtains (failed) "\<And>d. result = Inr d \<Longrightarrow> validate env d now \<noteq> Inr True"
      "refresh_done env now result p = (markUnavailable (p\<lparr>pending := pending p - 1, snapshot := None\<rparr>))\<lparr>busy := False\<rparr>"
  | (threw) d q where "result = Inr d" "validate env d now = Inr True"
      "pending q = pending p - 1" "blocks q = list_of d ''blocks''" "dom (texts q) = dom (texts p)"
      "refresh_done env now result p = (markUnavailable (q\<lparr>snapshot := None\<rparr>))\<lparr>busy := False\<rparr>"
  | (displayed) d q where "result = Inr d" "validate env d now = Inr True"
      "pending q = pending p - 1" "blocks q = list_of d ''blocks''" "dom (texts q) = dom (texts p)"
      "refresh_done env now result p = q\<lparr>snapshot := Some d, busy := False\<rparr>"
proof (cases "\<exists>d. result = Inr d \<and> validate env d now = Inr True")
  case True
  then obtain d where d: "result = Inr d" "validate env d now = Inr True" by blast
  let ?p = "p\<lparr>pending := pending p - 1\<rparr>"
  obtain h pc u s where sh: "show_report env d ?p =
      (case renderBlocks env (report_texts d h pc u s ?p) of (q, Inl e) \<Rightarrow> (q, Inl e)
       | (q, Inr _) \<Rightarrow> (q\<lparr>snapshot := Some d\<rparr>, Inr ()))" by (rule show_report_valid [OF d(2)]) blast
  obtain q r where q: "renderBlocks env (report_texts d h pc u s ?p) = (q, r)" by fastforce
  have fr: "pending q = pending p - 1" "blocks q = list_of d ''blocks''" "dom (texts q) = dom (texts p)"
    using q renderBlocks_frame(3,4) [of env "report_texts d h pc u s ?p"] renderBlocks_blocks [of env "report_texts d h pc u s ?p"]
    by (simp_all add: report_texts_frame)
  show ?thesis
  proof (cases r)
    case (Inl e)
    then show ?thesis using d sh q by (intro threw [OF d fr]) (simp add: refresh_done_def Let_def)
  next
    case (Inr x)
    then show ?thesis using d sh q by (intro displayed [OF d fr]) (simp add: refresh_done_def Let_def)
  qed
next
  case False
  moreover have "refresh_done env now result p = (markUnavailable (p\<lparr>pending := pending p - 1, snapshot := None\<rparr>))\<lparr>busy := False\<rparr>"
  proof (cases result)
    case (Inr d)
    then show ?thesis using False by (cases "validate env d now") (auto simp: refresh_done_def Let_def)
  qed (simp add: refresh_done_def Let_def)
  ultimately show ?thesis using failed by blast
qed

lemma refresh_done_poll:
  "\<not> busy (refresh_done env now result p) \<and> pending (refresh_done env now result p) = pending p - 1"
  by (cases rule: refresh_done_cases [of result env now p]) auto

lemma refresh_done_blocks:
  "blocks (refresh_done env now result p) = blocks p \<or>
   (\<exists>d. validate env d now = Inr True \<and> blocks (refresh_done env now result p) = list_of d ''blocks'')"
  by (cases rule: refresh_done_cases [of result env now p]) auto

lemma refresh_done_snapshot:
  assumes "snapshot (refresh_done env now result p) = Some d"
  shows "result = Inr d \<and> validate env d now = Inr True"
  by (cases rule: refresh_done_cases [of result env now p]) (use assms in auto)

lemma refresh_done_unavailable:
  assumes "snapshot (refresh_done env now result p) = None"
  shows "texts (refresh_done env now result p) ''[data-explorer-height]'' =
    map_option (\<lambda>_. lit ''Unavailable'') (texts p ''[data-explorer-height]'')"
proof (cases rule: refresh_done_cases [of result env now p])
  case (threw d q)
  then show ?thesis using map_option_dom [OF threw(5)] by simp
qed (use assms in simp_all)

lemma expire_poll: "busy (fst (expire env now p)) = busy p \<and> pending (fst (expire env now p)) = pending p"
  by (auto simp: expire_def split: option.splits sum.splits)

interpretation explorer_poll: polled_page busy pending refresh_start
  "\<lambda>(env, now, result). refresh_done env now result"
  "\<lambda>m p. case m of Inl (env, now) \<Rightarrow> fst (expire env now p) | Inr (env, s) \<Rightarrow> fst (renderTransactions env (p\<lparr>search_value := s\<rparr>))"
  by unfold_locales (auto simp: refresh_start_def refresh_done_poll expire_poll renderTransactions_frame split: sum.split)

definition blocks_ok :: "page \<Rightarrow> bool" where
  "blocks_ok p \<longleftrightarrow> (\<exists>h. \<forall>b \<in> set (blocks p). valid_block h b = Inr True)"

lemma blocks_ok_same: "blocks q = blocks p \<Longrightarrow> blocks_ok p \<Longrightarrow> blocks_ok q"
  by (simp add: blocks_ok_def)

lemma expire_blocks [simp]: "blocks (fst (expire env now p)) = blocks p"
  by (auto simp: expire_def split: option.splits sum.splits)

lemma explorer_reachable_blocks: "explorer_reachable env elements p \<Longrightarrow> blocks_ok p"
proof (induction rule: explorer_reachable.induct)
  case (start s linked)
  show ?case by (simp add: blocks_ok_def explorer_init_def refresh_start_def)
next
  case (step p q)
  from step(2,3) show ?case
  proof (induction rule: explorer_step.induct)
    case (finished p now result)
    show ?case
    proof (cases "blocks (refresh_done env now result p) = blocks p")
      case False
      then obtain d where d: "validate env d now = Inr True" "blocks (refresh_done env now result p) = list_of d ''blocks''"
        using refresh_done_blocks by blast
      obtain h bs where "list_of d ''blocks'' = bs" "\<forall>b \<in> set bs. valid_block h b = Inr True"
        by (rule validateE [OF d(1)])
      then show ?thesis using d(2) by (auto simp: blocks_ok_def)
    qed (use finished blocks_ok_same in blast)
  next
    case (typed p s)
    show ?case by (rule blocks_ok_same [OF _ typed]) (simp add: renderTransactions_frame)
  next
    case (visible p now)
    obtain q r where qr: "expire env now p = (q, r)" by fastforce
    then have b: "blocks q = blocks p" using expire_blocks [of env now p] by simp
    show ?case using qr b visible by (cases r) (simp_all add: act_seq_def refresh_start_def blocks_ok_def)
  qed (auto simp: blocks_ok_def refresh_start_def)
qed

section \<open>A concrete report\<close>

definition ex_input :: "jsval \<Rightarrow> jsval" where
  "ex_input addr = obj [(''coinbase'', JBool True), (''address'', addr)]"

definition ex_tx :: "jsval \<Rightarrow> jsval" where
  "ex_tx addr = obj [(''txid'', ex_hash), (''coinbase'', JBool True), (''inputCount'', ex_num 1), (''outputCount'', ex_num 0),
     (''inputs'', JArr [ex_input addr]), (''outputs'', JArr [])]"

definition ex_block :: "jsval \<Rightarrow> jsval" where
  "ex_block addr = obj [(''height'', ex_num 5), (''hash'', ex_hash), (''time'', ex_num 1788912000), (''confirmations'', ex_num 1),
     (''transactionCount'', ex_num 1), (''difficulty'', ex_num 1), (''minerSubsidyEstimate'', JStr (lit ''9'')),
     (''treasurySubsidyEstimate'', JStr (lit ''1'')), (''transactions'', JArr [ex_tx addr])]"

definition ex_report :: "jsval \<Rightarrow> jsval" where
  "ex_report addr = obj [(''updatedAt'', JStr (lit ''2026-09-09T00:00:00Z'')), (''chain'', JStr (lit ''test'')), (''height'', ex_num 5),
     (''peerCount'', ex_num 2), (''bestBlockHash'', ex_hash), (''blocks'', JArr [ex_block addr])]"

lemma ex_leaves [simp]:
  "hash ex_hash" "truthy (obj ps)" "amount (JStr (lit ''9''))" "amount (JStr (lit ''1''))"
  by (simp_all add: ex_hash_def hash_iff list_all_length is_hex_def is_digit_def obj_def amount_def amount_re_def lit_def re_lit_def)

lemma ex_integer [simp]: "integer (ex_num n) \<longleftrightarrow> 0 \<le> n \<and> n < 2 ^ 53"
  by (auto simp: integer_def)

lemma ex_tx_valid: "valid_tx (ex_tx addr) = Inr True"
  by (simp add: valid_tx_def valid_conds ex_tx_def get_obj array_upto_def at_least_length_def valid_input_def ex_input_def)

lemma ex_block_valid: "valid_block (ex_num 5) (ex_block addr) = Inr True"
  by (simp add: valid_block_def valid_conds ex_block_def get_obj array_upto_def ex_tx_valid)

lemma ex_report_valid: "validate env (ex_report addr) (Fin (of_int 1788912005000)) = Inr True"
proof -
  have "get (ex_report addr) ''updatedAt'' = Inr (JStr (lit ''2026-09-09T00:00:00Z''))" by (simp add: ex_report_def get_obj)
  then have "fresh env (ex_report addr) (Fin (of_int 1788912005000)) = Inr True"
    using fresh_iso [OF _ ex_stamp, of "ex_report addr" env 1788912005000] by simp
  then show ?thesis
    by (simp add: validate_def valid_conds) (simp add: ex_report_def get_obj array_upto_def ex_block_valid every_in_True)
qed

section \<open>Properties of the explorer page\<close>

lemma shown_report:
  assumes "validate env d now = Inr True" "trim (search_value p) = []"
  shows "\<exists>q. show_report env d p = (q, Inr ()) \<and> snapshot q = Some d \<and> busy q = busy p \<and> pending q = pending p \<and>
    blocks q = list_of d ''blocks'' \<and> length (block_rows q) = length (list_of d ''blocks'') \<and> length (list_of d ''blocks'') \<le> 25 \<and>
    length (tx_nodes q) \<le> 200 \<and> (\<forall>n \<in> set (tx_nodes q). length (kids n) \<le> 37)"
proof -
  obtain h pc u s where sh: "show_report env d p =
      (case renderBlocks env (report_texts d h pc u s p) of (q, Inl e) \<Rightarrow> (q, Inl e)
       | (q, Inr _) \<Rightarrow> (q\<lparr>snapshot := Some d\<rparr>, Inr ()))" by (rule show_report_valid [OF assms(1)]) blast
  obtain h' bs where bs: "list_of d ''blocks'' = bs" "length bs \<le> 25" "\<forall>b \<in> set bs. valid_block h' b = Inr True"
    by (rule validateE [OF assms(1)])
  let ?p = "report_texts d h pc u s p"
  obtain q where q: "renderBlocks env ?p = (q, Inr ())" "length (block_rows q) = length bs"
      "length (tx_nodes q) \<le> max 1 (8 * length bs)" "\<forall>n \<in> set (tx_nodes q). length (kids n) \<le> 37"
    using renderBlocks_valid [of ?p h' env] bs assms(2) by (auto simp: report_texts_frame)
  then show ?thesis
    using sh bs renderBlocks_frame(1-3) [of env ?p] renderBlocks_blocks [of env ?p] by (simp add: report_texts_frame)
qed

text \<open>
  C4. The explorer never rejects a report it has validated: with an empty search box, the continuation of
  refresh for a report d accepted by validate completes without an exception. The report becomes the current
  snapshot, the page is no longer busy, there is one table row for each block of d (at most 25), at most 200
  transaction entries, and each entry has at most 37 children.
\<close>

theorem validated_report_is_displayed:
  assumes "validate env d now = Inr True" "trim (search_value p) = []"
  shows "snapshot (refresh_done env now (Inr d) p) = Some d \<and> \<not> busy (refresh_done env now (Inr d) p) \<and>
    length (block_rows (refresh_done env now (Inr d) p)) = length (list_of d ''blocks'') \<and>
    length (list_of d ''blocks'') \<le> 25 \<and> length (tx_nodes (refresh_done env now (Inr d) p)) \<le> 200 \<and>
    (\<forall>n \<in> set (tx_nodes (refresh_done env now (Inr d) p)). length (kids n) \<le> 37)"
proof -
  let ?p = "p\<lparr>pending := pending p - 1\<rparr>"
  have "trim (search_value ?p) = []" using assms(2) by simp
  from shown_report [OF assms(1) this] obtain q where "show_report env d ?p = (q, Inr ())" "snapshot q = Some d"
    "length (block_rows q) = length (list_of d ''blocks'')" "length (list_of d ''blocks'') \<le> 25"
    "length (tx_nodes q) \<le> 200" "\<forall>n \<in> set (tx_nodes q). length (kids n) \<le> 37" by blast
  then show ?thesis using assms(1) by (simp add: refresh_done_def Let_def)
qed

definition ex_elements :: "string \<rightharpoonup> jsstr" where
  "ex_elements = (\<lambda>_. Some [])"

theorem validated_report_is_displayed_witness:
  "snapshot (refresh_done ex_env (Fin (of_int 1788912005000)) (Inr (ex_report JNull)) (explorer_init ex_elements [] None)) =
     Some (ex_report JNull) \<and>
   length (block_rows (refresh_done ex_env (Fin (of_int 1788912005000)) (Inr (ex_report JNull)) (explorer_init ex_elements [] None))) = 1"
proof -
  have s: "trim (search_value (explorer_init ex_elements [] None)) = []"
    by (simp add: explorer_init_def refresh_start_def trim_def)
  have l: "length (list_of (ex_report JNull) ''blocks'') = 1"
    by (simp add: ex_report_def list_of_def opt_get_def get_obj)
  show ?thesis using validated_report_is_displayed [OF ex_report_valid s] l by simp
qed

text \<open>
  C5. Old readings expire. In every state the explorer page can reach through downloads, timer ticks,
  searches, visibility changes and opened entries, the expiry tick at time now throws nothing; after it at
  most one download is pending, and the height element shows the height of a snapshot that is still fresh at
  now, or its initial text, or the word Unavailable.
\<close>

theorem explorer_shows_fresh_height:
  fixes env now p
  assumes "explorer_reachable env elements p"
  defines "q \<equiv> fst (expire env now p)"
  shows "snd (expire env now p) = Inr () \<and> pending q \<le> 1 \<and>
    ((\<exists>d h. snapshot q = Some d \<and> fresh env d now = Inr True \<and> rbind (get d ''height'') (text_content env) = Inr h \<and>
        texts q ''[data-explorer-height]'' = map_option (\<lambda>_. h) (elements ''[data-explorer-height]'')) \<or>
     texts q ''[data-explorer-height]'' \<in>
       {elements ''[data-explorer-height]'', map_option (\<lambda>_. lit ''Unavailable'') (elements ''[data-explorer-height]'')})"
proof -
  note ok = explorer_reachable_ok [OF assms(1)]
  have q: "explorer_ok env elements q" "\<And>d. snapshot q = Some d \<Longrightarrow> fresh env d now = Inr True"
    using expire_valid(2,3) [OF ok, of now] by (auto simp: q_def)
  show ?thesis
  proof (cases "snapshot q")
    case None
    then show ?thesis using q(1) expire_valid(1) [OF ok] by (auto simp: explorer_ok_def)
  next
    case (Some d)
    then show ?thesis using q expire_valid(1) [OF ok] by (auto simp: explorer_ok_def)
  qed
qed

definition ex_page :: page where
  "ex_page = refresh_done ex_env (Fin (of_int 1788912005000)) (Inr (ex_report JNull)) (explorer_init ex_elements [] None)"

lemma ex_page_reachable: "explorer_reachable ex_env ex_elements ex_page"
  unfolding ex_page_def
  by (rule explorer_reachable.step [OF explorer_reachable.start explorer_step.finished])
    (simp add: explorer_init_def refresh_start_def)

theorem explorer_shows_fresh_height_witness:
  "texts (fst (expire ex_env (Fin (of_int 1788912005000)) ex_page)) ''[data-explorer-height]'' \<in> {Some [], Some (lit ''Unavailable'')} \<or>
   (\<exists>d. snapshot (fst (expire ex_env (Fin (of_int 1788912005000)) ex_page)) = Some d \<and>
     fresh ex_env d (Fin (of_int 1788912005000)) = Inr True)"
  using explorer_shows_fresh_height [OF ex_page_reachable, of "Fin (of_int 1788912005000)"]
  by (auto simp: ex_elements_def)

text \<open>
  C26. The search is exact. In every reachable state of the explorer page in which no mining input of
  the loaded blocks carries an address that is neither a string nor absent (or the trimmed search text
  is empty), rendering the list succeeds. The entries shown are then, in order, exactly the
  transactions in whose id, or in the address of one of whose inputs or outputs, the text occurs
  (all transactions for an empty text); if there are none a single line saying so is shown.
\<close>

theorem search_shows_matching_transactions:
  fixes env p
  assumes "explorer_reachable env elements p"
  defines "q \<equiv> fst (renderTransactions env p)" and "query \<equiv> trim (search_value p)"
  defines "found \<equiv> filter (\<lambda>(b, tx). query = [] \<or> mentions query tx) (block_txs (blocks p))"
  assumes "query = [] \<or> (\<forall>(b, tx) \<in> set (block_txs (blocks p)). searchable tx)"
  shows "snd (renderTransactions env p) = Inr () \<and>
    (if found = [] then length (tx_nodes q) = 1 \<and> map txid (tx_nodes q) = [None]
     else map (\<lambda>n. map_option JStr (txid n)) (tx_nodes q) = map (\<lambda>(b, tx). Some (opt_get tx ''txid'')) found)"
proof -
  obtain h where h: "\<forall>b \<in> set (blocks p). valid_block h b = Inr True"
    using explorer_reachable_blocks [OF assms(1)] by (auto simp: blocks_ok_def)
  have m: "query = [] \<or> matches_query query tx = Inr (mentions query tx)" if "(b, tx) \<in> set (block_txs (blocks p))" for b tx
    using matches_query_valid [OF block_txs_valid(2) [OF h that]] assms(5) that by blast
  have found: "found = filter (shown query) (block_txs (blocks p))"
    unfolding found_def
  proof (rule filter_cong [OF refl])
    fix bt assume "bt \<in> set (block_txs (blocks p))"
    then show "(case bt of (b, tx) \<Rightarrow> query = [] \<or> mentions query tx) \<longleftrightarrow> shown query bt"
      using m [of "fst bt" "snd bt"] by (auto simp: shown_def case_prod_beta)
  qed
  have ok: "query = [] \<or> is_ok (matches_query query tx)" if "(b, tx) \<in> set (block_txs (blocks p))" for b tx
    using m [OF that] by (auto simp: is_ok.simps)
  let ?r = "render_list env query (opened_ids (tx_nodes p)) (block_txs (blocks p))"
  have "snd ?r = Inr () \<and> map (\<lambda>n. map_option JStr (txid n)) (fst ?r) = map (\<lambda>(b, tx). Some (opt_get tx ''txid'')) found \<and>
      (\<forall>n \<in> set (fst ?r). length (kids n) \<le> 37)"
    unfolding found using block_txs_valid [OF h] ok by (intro render_list_spec) blast+
  then obtain ns where ns: "?r = (ns, Inr ())"
      "map (\<lambda>n. map_option JStr (txid n)) ns = map (\<lambda>(b, tx). Some (opt_get tx ''txid'')) found" by (cases ?r) auto
  have "length ns = length found" using arg_cong [OF ns(2), of length] by simp
  then have "found = [] \<longleftrightarrow> ns = []" by auto
  then show ?thesis using ns
    by (cases "ns = []") (simp_all add: q_def query_def renderTransactions_def Let_def el_def)
qed

lemma ex_query: "matches_query (lit ''z'') (ex_tx addr) = js_includes (or_else addr []) (lit ''z'')"
proof -
  have s: "substring [z] (replicate n a) = (z = a \<and> 0 < n)" for z a n by (induction n) auto
  show ?thesis
    by (cases "or_else addr []") (simp_all add: matches_query_def ex_tx_def ex_input_def ex_hash_def get_obj list_of_def opt_get_def js_includes_def
        js_or_def lit_def s)
qed

lemma trim_z: "trim (lit ''z'') = lit ''z''"
  by (simp add: trim_def lit_def js_space_def)

lemma ex_page_blocks: "blocks ex_page = [ex_block JNull]"
proof -
  let ?p = "(explorer_init ex_elements [] None)\<lparr>pending := pending (explorer_init ex_elements [] None) - 1\<rparr>"
  have "trim (search_value ?p) = []" by (simp add: explorer_init_def refresh_start_def trim_def)
  from shown_report [OF ex_report_valid this] obtain q
    where "show_report ex_env (ex_report JNull) ?p = (q, Inr ())" "blocks q = list_of (ex_report JNull) ''blocks''" by blast
  then show ?thesis using ex_report_valid
    by (simp add: ex_page_def refresh_done_def Let_def) (simp add: ex_report_def list_of_def opt_get_def get_obj)
qed

lemma ex_block_txs: "block_txs [ex_block addr] = [(ex_block addr, ex_tx addr)]"
  by (simp add: block_txs_def ex_block_def list_of_def opt_get_def get_obj)

lemma ex_occurs: "occurs_in (lit ''a'') ex_hash" "\<not> occurs_in (lit ''z'') ex_hash"
proof -
  have o: "occurs_in q (JStr s) \<longleftrightarrow> substring q s" for q s by (simp add: occurs_in_def substring_iff)
  have "substring [z] (replicate n a) = (z = a \<and> 0 < n)" for z a n by (induction n) auto
  then show "occurs_in (lit ''a'') ex_hash" "\<not> occurs_in (lit ''z'') ex_hash" by (simp_all add: ex_hash_def o lit_def)
qed

lemma ex_tx_searchable: "searchable (ex_tx JNull)"
  by (simp add: searchable_def ex_tx_def ex_input_def get_obj opt_get_def)

lemma ex_tx_mentions: "mentions query (ex_tx JNull) \<longleftrightarrow> occurs_in query ex_hash"
  by (auto simp: mentions_def ex_tx_def ex_input_def get_obj opt_get_def occurs_in_def)

theorem search_shows_matching_transactions_witness:
  "map txid (tx_nodes (fst (renderTransactions ex_env
     (fst (renderTransactions ex_env (ex_page\<lparr>search_value := lit ''z''\<rparr>)))))) = [None] \<and>
   map (\<lambda>n. map_option JStr (txid n)) (tx_nodes (fst (renderTransactions ex_env
     (fst (renderTransactions ex_env (ex_page\<lparr>search_value := lit ''a''\<rparr>)))))) = [Some ex_hash]"
proof -
  have r: "explorer_reachable ex_env ex_elements (fst (renderTransactions ex_env (ex_page\<lparr>search_value := s\<rparr>)))" for s
    by (rule explorer_reachable.step [OF ex_page_reachable explorer_step.typed])
  have b: "block_txs (blocks (fst (renderTransactions ex_env (ex_page\<lparr>search_value := s\<rparr>)))) = [(ex_block JNull, ex_tx JNull)]"
    "search_value (fst (renderTransactions ex_env (ex_page\<lparr>search_value := s\<rparr>))) = s" for s
    by (simp_all add: renderTransactions_frame ex_page_blocks ex_block_txs)
  have t: "trim (lit ''a'') = lit ''a''" by (simp add: trim_def lit_def js_space_def)
  have z: "\<not> mentions (lit ''z'') (ex_tx JNull)" and a: "mentions (lit ''a'') (ex_tx JNull)"
    by (simp_all add: ex_tx_mentions ex_occurs)
  have ne: "lit ''z'' \<noteq> []" "lit ''a'' \<noteq> []" by (simp_all add: lit_def)
  have i: "opt_get (ex_tx JNull) ''txid'' = ex_hash" by (simp add: ex_tx_def get_obj opt_get_def)
  show ?thesis
    using search_shows_matching_transactions [OF r, of "lit ''z''"] search_shows_matching_transactions [OF r, of "lit ''a''"]
      z a i ne by (simp add: b trim_z t ex_tx_searchable)
qed

text \<open>
  C32. A validated report can still be unsearchable. validate leaves the address of an input with coinbase true
  unchecked, so a report whose mining input carries a number as address is accepted; once the search box holds
  a text, displaying it calls includes on that number, the exception is caught by refresh, and the page marks
  the fresh report as unavailable.
\<close>

theorem unchecked_mining_address_breaks_search:
  "validate env (ex_report (ex_num 7)) (Fin (of_int 1788912005000)) = Inr True \<and>
   (let q = refresh_done env (Fin (of_int 1788912005000)) (Inr (ex_report (ex_num 7))) (explorer_init ex_elements (lit ''z'') None) in
      snapshot q = None \<and> texts q ''[data-explorer-height]'' = Some (lit ''Unavailable''))"
proof -
  let ?d = "ex_report (ex_num 7)" and ?now = "Fin (of_int 1788912005000)"
  let ?p = "(explorer_init ex_elements (lit ''z'') None)\<lparr>pending := 0\<rparr>"
  have v: "validate env ?d ?now = Inr True" by (rule ex_report_valid)
  obtain h pc u s where sh: "show_report env ?d ?p =
      (case renderBlocks env (report_texts ?d h pc u s ?p) of (q, Inl e) \<Rightarrow> (q, Inl e)
       | (q, Inr _) \<Rightarrow> (q\<lparr>snapshot := Some ?d\<rparr>, Inr ()))" by (rule show_report_valid [OF v]) blast
  let ?q = "report_texts ?d h pc u s ?p"
  have b: "blocks ?q = [ex_block (ex_num 7)]" "search_value ?q = lit ''z''"
    by (simp_all add: report_texts_frame ex_report_def list_of_def opt_get_def get_obj explorer_init_def refresh_start_def)
  obtain row where row: "render_row env (ex_block (ex_num 7)) = Inr row"
    using render_row_total [OF ex_block_valid] by blast
  have "block_txs [ex_block (ex_num 7)] = [(ex_block (ex_num 7), ex_tx (ex_num 7))]" by (rule ex_block_txs)
  moreover have "matches_query (lit ''z'') (ex_tx (ex_num 7)) = Inl TypeError"
    by (simp add: ex_query) (simp add: js_includes_def ex_num_def or_else_def)
  ultimately have "\<exists>q. renderBlocks env ?q = (q, Inl TypeError)"
    using b row by (simp add: renderBlocks_def renderTransactions_def Let_def trim_z) (simp add: lit_def)
  then obtain q where q: "renderBlocks env ?q = (q, Inl TypeError)" by blast
  then have "texts q ''[data-explorer-height]'' = texts ?q ''[data-explorer-height]''"
    using renderBlocks_frame(5) [of "''[data-explorer-height]''" env ?q] by simp
  then have "texts q ''[data-explorer-height]'' = Some h"
    by (simp add: report_texts_def set_text_texts explorer_init_def refresh_start_def ex_elements_def)
  moreover have "pending (explorer_init ex_elements (lit ''z'') None) = 1" by (simp add: explorer_init_def refresh_start_def)
  ultimately show ?thesis
    using v sh q by (simp add: refresh_done_def Let_def)
qed

end
