(* ===== verification/Node_Status.thy ===== *)
theory Node_Status
  imports Report_Checks
begin

text \<open>
  \<^verbatim>\<open>src/site/node-status.js\<close>: the classification of a node's report, and the card of one node, which
  polls \<^verbatim>\<open>/data/nodes/<name>.json\<close> and repaints every five seconds. A card is its three texts and its
  state attribute, with the script's variables and the number of downloads under way.
\<close>

section \<open>Model\<close>

record status =
  state :: string
  label :: string
  detail :: jsstr
  stamp :: "jsnum option"

definition stale :: status where
  "stale = \<lparr>state = ''unknown'', label = ''Status unavailable'',
     detail = lit ''No recent report. This does not confirm an outage.'', stamp = None\<rparr>"

definition unverified :: status where
  "unverified = \<lparr>state = ''unknown'', label = ''Status unavailable'',
     detail = lit ''The latest report could not be verified.'', stamp = None\<rparr>"

text \<open>The test of a hash coerces its argument: \<^verbatim>\<open>/^[a-f0-9]{64}$/i.test(x || '')\<close>.\<close>

definition hash_test :: "js_env \<Rightarrow> jsval \<Rightarrow> string \<Rightarrow> bool js" where
  "hash_test env data k = rbind (get data k) (\<lambda>x. rbind (to_string env (or_else x [])) (\<lambda>s. Inr (re_test hash_re s)))"

fun val_num :: "jsval \<Rightarrow> jsnum" where
  "val_num (JNum n) = n"
| "val_num _ = NaN"

definition verified :: "js_env \<Rightarrow> jsval \<Rightarrow> bool js" where
  "verified env data = js_all [has data ''chain'' (\<lambda>x. x = JStr (lit ''test'')), hash_test env data ''bestBlockHash'',
     has data ''height'' isSafeInteger, has data ''height'' (val_le (JNum (Fin 0))),
     has data ''peerCount'' isSafeInteger, has data ''peerCount'' (val_le (JNum (Fin 0))),
     has data ''initialBlockDownload'' is_boolean]"

definition classify :: "js_env \<Rightarrow> jsval \<Rightarrow> jsnum \<Rightarrow> status js" where
  "classify env data now =
     rbind (if truthy data then get data ''updatedAt'' else Inr data) (\<lambda>u.
     rbind (to_string env u) (\<lambda>s.
       let t = Date_parse env s in
       if \<not> num_finite t \<or> num_lt (num_add now (Fin 30000)) t \<or> num_lt (Fin 120000) (num_sub now t) then Inr stale
       else
         rbind (verified env data) (\<lambda>ok.
         if \<not> ok then Inr unverified
         else let syncing = truthy (opt_get data ''initialBlockDownload'') in
           Inr \<lparr>state = (if syncing then ''syncing'' else ''online''),
                label = (if syncing then ''Online, syncing'' else ''Online''),
                detail = lit ''Block '' @ num_locale env (val_num (opt_get data ''height'')) @ lit '' / '' @
                  num_string env (val_num (opt_get data ''peerCount'')) @ lit '' peer connections'',
                stamp = Some t\<rparr>)))"

definition node_names :: "string list" where
  "node_names = [''borogove'', ''mome'', ''rath'']"

definition node_path :: "string \<Rightarrow> jsstr" where
  "node_path name = lit (''/data/nodes/'' @ name @ ''.json'')"

record card =
  card_state :: string
  card_label :: jsstr
  card_detail :: jsstr
  card_time :: jsstr
  card_snapshot :: jsval
  card_busy :: bool
  card_pending :: nat

definition card_time_text :: "js_env \<Rightarrow> jsnum option \<Rightarrow> jsstr" where
  "card_time_text env st =
     (case st of None \<Rightarrow> lit ''Waiting for a fresh report''
      | Some t \<Rightarrow>
          if truthy (JNum t)
          then lit ''Reported '' @ (case time_clip t of None \<Rightarrow> lit ''Invalid Date'' | Some d \<Rightarrow> clock_locale env d)
          else lit ''Waiting for a fresh report'')"

definition card_paint :: "js_env \<Rightarrow> jsnum \<Rightarrow> card \<Rightarrow> card \<times> unit js" where
  "card_paint env now c =
     (case classify env (card_snapshot c) now of Inl e \<Rightarrow> (c, Inl e)
      | Inr st \<Rightarrow> (c\<lparr>card_state := state st, card_label := lit (label st), card_detail := detail st,
                   card_time := card_time_text env (stamp st)\<rparr>, Inr ()))"

definition card_refresh_start :: "card \<Rightarrow> card" where
  "card_refresh_start c = (if card_busy c then c else c\<lparr>card_busy := True, card_pending := card_pending c + 1\<rparr>)"

definition card_refresh_done :: "js_env \<Rightarrow> jsnum \<Rightarrow> jsval js \<Rightarrow> card \<Rightarrow> card" where
  "card_refresh_done env now result c =
     fst (card_paint env now
       (c\<lparr>card_pending := card_pending c - 1,
          card_snapshot := (case result of Inl _ \<Rightarrow> JNull | Inr data \<Rightarrow> data), card_busy := False\<rparr>))"

definition card_refresh :: "js_env \<Rightarrow> string \<Rightarrow> jsnum \<Rightarrow> response js \<Rightarrow> card \<Rightarrow> card" where
  "card_refresh env name now fetched c =
     card_refresh_done env now (snd (read (node_path name) default_maxBytes fetched)) c"

definition card_visible :: "js_env \<Rightarrow> jsnum \<Rightarrow> card \<Rightarrow> card" where
  "card_visible env now c =
     (case card_paint env now c of (d, Inl _) \<Rightarrow> d | (d, Inr _) \<Rightarrow> card_refresh_start d)"

text \<open>A card starts when its name is one of the three; its texts are those of the page.\<close>

definition card_start :: "string \<Rightarrow> card \<Rightarrow> card option" where
  "card_start name c =
     (if name \<in> set node_names
      then Some (card_refresh_start (c\<lparr>card_snapshot := JNull, card_busy := False, card_pending := 0\<rparr>)) else None)"

inductive card_step :: "js_env \<Rightarrow> card \<Rightarrow> card \<Rightarrow> bool" for env where
  interval: "card_step env c (card_refresh_start c)"
| finished: "0 < card_pending c \<Longrightarrow> card_step env c (card_refresh_done env now result c)"
| tick: "card_step env c (fst (card_paint env now c))"
| visible: "card_step env c (card_visible env now c)"

inductive card_reachable :: "js_env \<Rightarrow> card \<Rightarrow> card \<Rightarrow> bool" for env c0 where
  start: "card_start name c0 = Some c \<Longrightarrow> card_reachable env c0 c"
| step: "card_reachable env c0 c \<Longrightarrow> card_step env c d \<Longrightarrow> card_reachable env c0 d"

section \<open>The window of classify and of fresh\<close>

lemma truthy_get: "truthy v \<Longrightarrow> \<exists>x. get v k = Inr x"
  by (cases v) (auto simp: get_def split: option.splits)

lemma num_add_int: "\<bar>a + b\<bar> < 2 ^ 53 \<Longrightarrow> num_add (Fin (of_int a)) (Fin (of_int b)) = Fin (of_int (a + b))"
  using round_double_int [of "a + b"] by (simp add: num_add_def)

lemma round_double_old: "- 30000 \<le> n \<Longrightarrow> num_lt (Fin 120000) (round_double (of_int n)) \<longleftrightarrow> 120000 < n"
proof (cases "\<bar>n\<bar> < 2 ^ 53")
  case True
  have "120000 < (of_int n :: rat) \<longleftrightarrow> 120000 < n" by linarith
  then show ?thesis unfolding round_double_int [OF True] by simp
next
  case False
  moreover assume "- 30000 \<le> n"
  ultimately have n: "2 ^ 53 \<le> n" by simp
  then have "(of_int (2 ^ 53) :: rat) \<le> of_int n" by (simp only: of_int_le_iff)
  then have "2 ^ 53 \<le> round_pos (of_int n)" by (intro round_pos_big) simp
  then have "120000 < round_pos (of_int n)" by simp
  then show ?thesis using n by (auto simp: round_double_def Let_def)
qed

lemma window_agrees:
  assumes "\<bar>now\<bar> \<le> 8640000000000000" "n = NaN \<or> (\<exists>t. n = Fin (of_int t))"
  shows "(\<not> num_finite n \<or> num_lt (num_add (Fin (of_int now)) (Fin 30000)) n \<or> num_lt (Fin 120000) (num_sub (Fin (of_int now)) n)) \<longleftrightarrow>
    \<not> (let age = num_sub (Fin (of_int now)) n in num_finite age \<and> num_le (Fin (- 30000)) age \<and> num_le age (Fin 120000))"
proof (cases "n = NaN")
  case False
  then obtain t where t: "n = Fin (of_int t)" using assms(2) by blast
  have add: "num_add (Fin (of_int now)) (Fin 30000) = Fin (of_int (now + 30000))"
    using num_add_int [of now 30000] assms(1) by simp
  have old: "num_lt (Fin 120000) (round_double (of_int (now - t))) \<longleftrightarrow> 120000 < now - t" if "now - t \<ge> - 30000"
    using round_double_old [OF that] .
  have "t \<le> now + 30000 \<longleftrightarrow> - 30000 \<le> now - t" by linarith
  then show ?thesis
    unfolding Let_def t add num_sub.simps of_int_diff [symmetric] round_double_window
    using old by (auto simp: not_less)
qed simp

lemma Date_parse_int:
  assumes "\<And>s. date_other env s = NaN \<or> (\<exists>t. date_other env s = Fin (of_int t))"
  shows "Date_parse env s = NaN \<or> (\<exists>t. Date_parse env s = Fin (of_int t))"
  using assms [of s] by (auto simp: Date_parse_def split: option.split)

lemma classify_cases:
  assumes "\<bar>now\<bar> \<le> 8640000000000000" "\<And>s. date_other env s = NaN \<or> (\<exists>t. date_other env s = Fin (of_int t))"
  shows "fresh env data (Fin (of_int now)) = Inl e \<Longrightarrow> classify env data (Fin (of_int now)) = Inl e"
    and "fresh env data (Fin (of_int now)) = Inr False \<Longrightarrow> classify env data (Fin (of_int now)) = Inr stale"
    and "fresh env data (Fin (of_int now)) = Inr True \<Longrightarrow> classify env data (Fin (of_int now)) \<noteq> Inr stale"
proof -
  let ?now = "Fin (of_int now)"
  have main: "\<exists>u s. (if truthy data then get data ''updatedAt'' else Inr data) = Inr u \<and> to_string env u = Inr s"
    if "fresh env data ?now = Inr b" for b
    using that by (auto simp: fresh_def rbind_Inr_iff split: if_splits)
  note w = window_agrees [OF assms(1) Date_parse_int [OF assms(2)], unfolded Let_def]
  show "classify env data ?now = Inl e" if "fresh env data ?now = Inl e"
    using that by (auto simp: fresh_def classify_def Let_def rbind_Inl_iff split: if_splits)
  show "classify env data ?now = Inr stale" if "fresh env data ?now = Inr False"
    using that main [OF that] w by (auto simp: fresh_def classify_def Let_def)
  show "classify env data ?now \<noteq> Inr stale" if f: "fresh env data ?now = Inr True"
  proof
    assume "classify env data ?now = Inr stale"
    then show False using f main [OF f] w
      by (auto simp: fresh_def classify_def Let_def rbind_Inr_iff stale_def unverified_def lit_def split: if_splits)
  qed
qed

section \<open>The card as a polled page\<close>

lemma card_paint_poll:
  "card_busy (fst (card_paint env now c)) = card_busy c" "card_pending (fst (card_paint env now c)) = card_pending c"
  "card_snapshot (fst (card_paint env now c)) = card_snapshot c"
  by (simp_all add: card_paint_def split: sum.split)

interpretation node_poll: polled_page card_busy card_pending card_refresh_start
  "\<lambda>(env, now, result). card_refresh_done env now result" "\<lambda>(env, now) c. fst (card_paint env now c)"
  by unfold_locales (auto simp: card_refresh_start_def card_refresh_done_def card_paint_poll)

lemma card_visible_eq:
  "card_visible env now c \<in> {fst (card_paint env now c), card_refresh_start (fst (card_paint env now c))}"
  by (auto simp: card_visible_def split: prod.split sum.split)

lemma card_one_download: "card_reachable env c0 c \<Longrightarrow> one_download card_busy card_pending c"
proof (induction rule: card_reachable.induct)
  case (start name c)
  then show ?case by (auto simp: card_start_def card_refresh_start_def one_download_def split: if_splits)
next
  case (step c d)
  from step(2,3) show ?case
  proof cases
    case (finished now result)
    then show ?thesis using node_poll.finish_keeps [OF step(3), of "(env, now, result)"] by simp
  next
    case (tick now)
    then show ?thesis using node_poll.move_keeps [OF step(3), of "(env, now)"] by simp
  next
    case (visible now)
    have "one_download card_busy card_pending (fst (card_paint env now c))"
      using node_poll.move_keeps [OF step(3), of "(env, now)"] by simp
    then show ?thesis using card_visible_eq [of env now c] node_poll.start_keeps visible by auto
  qed (simp add: node_poll.start_keeps)
qed

section \<open>Properties of the node cards\<close>

lemma stale_unknown: "state stale = ''unknown''"
  by (simp add: stale_def)

lemma verifiedD:
  assumes "verified env data = Inr True"
  shows "\<exists>b h n. get data ''chain'' = Inr (JStr (lit ''test'')) \<and> hash_test env data ''bestBlockHash'' = Inr True \<and>
    get data ''height'' = Inr h \<and> isSafeInteger h \<and> val_le (JNum (Fin 0)) h \<and>
    get data ''peerCount'' = Inr n \<and> isSafeInteger n \<and> val_le (JNum (Fin 0)) n \<and>
    get data ''initialBlockDownload'' = Inr (JBool b) \<and> truthy (opt_get data ''initialBlockDownload'') = b"
proof -
  have b: "\<exists>b. v = JBool b" if "is_boolean v" for v using that by (cases v) simp_all
  show ?thesis using assms b by (fastforce simp: verified_def conds_True opt_get_def)
qed

lemma classify_known:
  assumes "classify env data now = Inr st" "state st \<noteq> ''unknown''"
  shows "verified env data = Inr True"
    "state st = (if truthy (opt_get data ''initialBlockDownload'') then ''syncing'' else ''online'')"
proof -
  obtain u s where us: "(if truthy data then get data ''updatedAt'' else Inr data) = Inr u" "to_string env u = Inr s"
    using assms(1) unfolding classify_def rbind_Inr_iff by blast
  have un: "state unverified = ''unknown''" by (simp add: unverified_def)
  note eq = assms(1) [unfolded classify_def us rbind.simps Let_def]
  show v: "verified env data = Inr True" using eq assms(2) stale_unknown un
    by (cases "verified env data") (auto split: if_splits)
  show "state st = (if truthy (opt_get data ''initialBlockDownload'') then ''syncing'' else ''online'')"
    using eq assms(2) stale_unknown unfolding v by (auto split: if_splits)
qed

text \<open>
  C11. The two scripts agree on what a recent report is. At a valid time, with Date.parse returning an integer or
  NaN as the language requires, classify answers that there is no recent report exactly when SlithyFeed.fresh
  rejects the report; and it answers online or syncing only for a fresh report of the test chain whose hash
  passes the test, whose height and peer count are non-negative safe integers, and whose
  initialBlockDownload is the boolean that decides between the two.
\<close>

theorem classify_agrees_with_fresh:
  assumes "\<bar>now\<bar> \<le> 8640000000000000" "\<And>s. date_other env s = NaN \<or> (\<exists>t. date_other env s = Fin (of_int t))"
  shows "(classify env data (Fin (of_int now)) = Inr stale \<longleftrightarrow> fresh env data (Fin (of_int now)) = Inr False) \<and>
    (\<forall>st. classify env data (Fin (of_int now)) = Inr st \<and> state st \<noteq> ''unknown'' \<longrightarrow>
      fresh env data (Fin (of_int now)) = Inr True \<and>
      (\<exists>b h n. get data ''chain'' = Inr (JStr (lit ''test'')) \<and> hash_test env data ''bestBlockHash'' = Inr True \<and>
        get data ''height'' = Inr h \<and> isSafeInteger h \<and> val_le (JNum (Fin 0)) h \<and>
        get data ''peerCount'' = Inr n \<and> isSafeInteger n \<and> val_le (JNum (Fin 0)) n \<and>
        get data ''initialBlockDownload'' = Inr (JBool b) \<and> state st = (if b then ''syncing'' else ''online'')))"
proof -
  note c = classify_cases [OF assms, where data = data]
  have s: "state stale = ''unknown''" by (simp add: stale_def)
  show ?thesis
  proof (cases "fresh env data (Fin (of_int now))")
    case (Inl e)
    then show ?thesis using c(1) by simp
  next
    case (Inr f)
    show ?thesis
    proof (cases f)
      case True
      then have f: "fresh env data (Fin (of_int now)) = Inr True" using Inr by simp
      have k: "\<exists>b h n. get data ''chain'' = Inr (JStr (lit ''test'')) \<and> hash_test env data ''bestBlockHash'' = Inr True \<and>
        get data ''height'' = Inr h \<and> isSafeInteger h \<and> val_le (JNum (Fin 0)) h \<and>
        get data ''peerCount'' = Inr n \<and> isSafeInteger n \<and> val_le (JNum (Fin 0)) n \<and>
        get data ''initialBlockDownload'' = Inr (JBool b) \<and> state st = (if b then ''syncing'' else ''online'')"
        if st: "classify env data (Fin (of_int now)) = Inr st" "state st \<noteq> ''unknown''" for st
        unfolding classify_known(2) [OF st] using verifiedD [OF classify_known(1) [OF st]] by blast
      show ?thesis using f k c(3) [OF f] by simp
    qed (use Inr c(2) s in simp)
  qed
qed

definition ex_status :: jsval where
  "ex_status = obj [(''updatedAt'', JStr (lit ''2026-09-09T00:00:00Z'')), (''chain'', JStr (lit ''test'')), (''height'', ex_num 5),
     (''peerCount'', ex_num 2), (''bestBlockHash'', ex_hash), (''initialBlockDownload'', JBool False)]"

theorem classify_agrees_with_fresh_witness:
  "classify ex_env ex_status (Fin (of_int 1788912130000)) = Inr stale"
proof -
  have "get ex_status ''updatedAt'' = Inr (JStr (lit ''2026-09-09T00:00:00Z''))" by (simp add: ex_status_def get_obj)
  then have "fresh ex_env ex_status (Fin (of_int 1788912130000)) = Inr False"
    using fresh_iso [OF _ ex_stamp, of ex_status ex_env 1788912130000] by simp
  moreover have "date_other ex_env s = NaN \<or> (\<exists>t. date_other ex_env s = Fin (of_int t))" for s by (simp add: ex_env_def)
  ultimately show ?thesis using classify_agrees_with_fresh [of 1788912130000 ex_env ex_status] by simp
qed

text \<open>
  C13. A repaint that completes never leaves an old reading on a card. In every state a card can reach, at most
  one download is pending; a repaint at a valid time either throws and changes nothing, or shows one of the
  three states, and shows online or syncing only when the card's snapshot is fresh at that time.
\<close>

theorem card_repaint_is_current:
  assumes "card_reachable env c0 c" "\<bar>now\<bar> \<le> 8640000000000000"
    "\<And>s. date_other env s = NaN \<or> (\<exists>t. date_other env s = Fin (of_int t))"
  shows "card_pending c \<le> 1 \<and>
    (case card_paint env (Fin (of_int now)) c of (d, Inl e) \<Rightarrow> d = c
     | (d, Inr _) \<Rightarrow> card_state d = ''unknown'' \<or>
         card_state d \<in> {''syncing'', ''online''} \<and> fresh env (card_snapshot c) (Fin (of_int now)) = Inr True)"
proof -
  have p: "card_pending c \<le> 1" using card_one_download [OF assms(1)] by (simp add: one_download_def)
  show ?thesis
  proof (cases "classify env (card_snapshot c) (Fin (of_int now))")
    case (Inr st)
    have "fresh env (card_snapshot c) (Fin (of_int now)) = Inr True" if "state st \<noteq> ''unknown''"
    proof (cases "fresh env (card_snapshot c) (Fin (of_int now))")
      case (Inl e)
      then show ?thesis using classify_cases(1) [OF assms(2,3) Inl] Inr by simp
    next
      case (Inr f)
      then show ?thesis using classify_cases(2) [OF assms(2,3), where data = "card_snapshot c"] \<open>classify _ _ _ = _\<close> that stale_unknown
        by (cases f) auto
    qed
    then show ?thesis using p Inr classify_known(2) [OF Inr]
      by (auto simp: card_paint_def split: if_splits)
  qed (use p in \<open>simp add: card_paint_def\<close>)
qed

definition ex_card :: card where
  "ex_card = \<lparr>card_state = ''unknown'', card_label = [], card_detail = [], card_time = [], card_snapshot = JNull,
     card_busy = True, card_pending = 1\<rparr>"

theorem card_repaint_is_current_witness:
  "card_pending (card_refresh_done ex_env (Fin (of_int 1788912005000)) (Inr ex_status) ex_card) \<le> 1"
proof -
  have "card_start ''mome'' ex_card = Some ex_card"
    by (simp add: card_start_def node_names_def card_refresh_start_def ex_card_def)
  then have "card_reachable ex_env ex_card ex_card" by (rule card_reachable.start)
  then have r: "card_reachable ex_env ex_card (card_refresh_done ex_env (Fin (of_int 1788912005000)) (Inr ex_status) ex_card)"
    by (rule card_reachable.step [OF _ card_step.finished]) (simp add: ex_card_def)
  have "date_other ex_env s = NaN \<or> (\<exists>t. date_other ex_env s = Fin (of_int t))" for s by (simp add: ex_env_def)
  then show ?thesis using card_repaint_is_current [OF r, of 1788912005000] by simp
qed

text \<open>A report whose time cannot be coerced to a string: every repaint throws, and the card stays as it is.\<close>

lemma card_frozen:
  fixes c env now0 ticks
  defines "d \<equiv> foldl (\<lambda>c now. fst (card_paint env now c))
        (card_refresh_done env now0 (Inr (obj [(''updatedAt'', obj [(''toString'', JNull)])])) c) ticks"
  shows "card_state d = card_state c" "card_label d = card_label c" "card_detail d = card_detail c" "card_time d = card_time c"
proof -
  let ?bad = "obj [(''updatedAt'', obj [(''toString'', JNull)])]"
  have "to_string env (obj [(''toString'', JNull)]) = Inl TypeError" for env by (simp add: obj_def)
  then have "classify env ?bad now = Inl TypeError" for now
    by (simp add: classify_def get_obj) (simp add: obj_def)
  then have paint: "card_paint env now c = (c, Inl TypeError)" if "card_snapshot c = ?bad" for now c
    using that by (simp add: card_paint_def)
  have "foldl (\<lambda>c now. fst (card_paint env now c)) c ticks = c" if "card_snapshot c = ?bad" for c ticks
    using that by (induction ticks) (simp_all add: paint)
  then show "card_state d = card_state c" "card_label d = card_label c" "card_detail d = card_detail c" "card_time d = card_time c"
    by (simp_all add: d_def card_refresh_done_def paint)
qed

end
