(* ===== verification/Treasury_Page.thy ===== *)
theory Treasury_Page
  imports Report_Checks
begin

text \<open>
  \<^verbatim>\<open>src/site/treasury.js\<close>: the checks of the treasury report, and the page that polls it. The document is
  the text of the elements \<^verbatim>\<open>[data-treasury-<name>]\<close> by name; the script runs only where the amount
  element exists.
\<close>

section \<open>Model\<close>

definition betaTreasury :: jsstr where
  "betaTreasury = lit ''tslithy1quwm9s9qq9k03vdlus547p2x69uqvh50v3wffcu''"

definition validAmount :: "jsval \<Rightarrow> bool" where
  "validAmount value = (case value of JStr s \<Rightarrow> re_test amount_re s \<and> num_finite (string_to_number s) | _ \<Rightarrow> False)"

definition hash_check :: "js_env \<Rightarrow> jsval \<Rightarrow> bool js" where
  "hash_check env st =
     rbind (get st ''bestBlockHash'') (\<lambda>x. rbind (to_string env (or_else x [])) (\<lambda>s. Inr (re_test hash_re s)))"

definition validate_status :: "js_env \<Rightarrow> jsval \<Rightarrow> jsnum \<Rightarrow> bool js" where
  "validate_status env st now = js_all
     [Inr (truthy st), fresh env st now, has st ''chain'' (\<lambda>x. x = JStr (lit ''test'')),
      has st ''network'' (\<lambda>x. x = JStr (lit ''slithy-testnet'')), has st ''chainHeight'' isSafeInteger,
      has st ''chainHeight'' (val_le (JNum (Fin 0))), hash_check env st,
      has st ''treasuryAddress'' (\<lambda>x. x = JStr betaTreasury), has st ''currentBalance'' validAmount,
      has st ''unlockedBalance'' (\<lambda>x. x = JNull \<or> validAmount x)]"

record treasury_page =
  elements :: "string \<rightharpoonup> jsstr"
  status :: jsval
  t_busy :: bool
  t_pending :: nat

definition set_element :: "string \<Rightarrow> jsstr \<Rightarrow> treasury_page \<Rightarrow> treasury_page" where
  "set_element name text p =
     (case elements p name of None \<Rightarrow> p | Some _ \<Rightarrow> p\<lparr>elements := (elements p)(name \<mapsto> text)\<rparr>)"

text \<open>\<^verbatim>\<open>money\<close> is called only on amounts that passed \<^verbatim>\<open>validAmount\<close>, which are strings.\<close>

definition money :: "js_env \<Rightarrow> jsval \<Rightarrow> jsstr" where
  "money env value = money_locale env (case value of JStr s \<Rightarrow> string_to_number s | _ \<Rightarrow> NaN) @ lit '' SLTHY''"

definition locale_date :: "js_env \<Rightarrow> jsval \<Rightarrow> jsstr js" where
  "locale_date env v = rbind (new_date env v) (\<lambda>d.
     Inr (case d of None \<Rightarrow> lit ''Invalid Date'' | Some t \<Rightarrow> date_locale env t))"

definition unavailable :: "treasury_page \<Rightarrow> treasury_page" where
  "unavailable p = set_element ''updated'' (lit ''Waiting for a fresh report'')
     (set_element ''unlocked'' (lit ''Spendable balance unavailable'')
       (set_element ''height'' (lit ''Unavailable'') (set_element ''amount'' (lit ''Status temporarily unavailable'') p)))"

definition treasury_paint :: "js_env \<Rightarrow> jsnum \<Rightarrow> treasury_page \<Rightarrow> treasury_page \<times> unit js" where
  "treasury_paint env now p =
     (let st = status p in
      case validate_status env st now of Inl e \<Rightarrow> (p, Inl e)
      | Inr False \<Rightarrow> (unavailable p, Inr ())
      | Inr True \<Rightarrow>
          (let unlocked = opt_get st ''unlockedBalance'';
               q = set_element ''unlocked'' (if unlocked = JNull then lit ''Spendable balance unavailable'' else money env unlocked)
                     (set_element ''height'' (case opt_get st ''chainHeight'' of JNum n \<Rightarrow> num_locale env n | _ \<Rightarrow> [])
                       (set_element ''amount'' (money env (opt_get st ''currentBalance'')) p)) in
           case locale_date env (opt_get st ''updatedAt'') of Inl e \<Rightarrow> (q, Inl e)
           | Inr d \<Rightarrow> (set_element ''address'' (case opt_get st ''treasuryAddress'' of JStr s \<Rightarrow> s | _ \<Rightarrow> [])
                        (set_element ''updated'' d q), Inr ())))"

definition treasury_path :: jsstr where
  "treasury_path = lit ''/data/treasury-beta-20260909.json''"

definition treasury_refresh_start :: "treasury_page \<Rightarrow> treasury_page" where
  "treasury_refresh_start p = (if t_busy p then p else p\<lparr>t_busy := True, t_pending := t_pending p + 1\<rparr>)"

definition treasury_refresh_done :: "js_env \<Rightarrow> jsnum \<Rightarrow> jsval js \<Rightarrow> treasury_page \<Rightarrow> treasury_page" where
  "treasury_refresh_done env now result p =
     fst (treasury_paint env now
       (p\<lparr>t_pending := t_pending p - 1, status := (case result of Inl _ \<Rightarrow> JNull | Inr data \<Rightarrow> data), t_busy := False\<rparr>))"

definition treasury_refresh :: "js_env \<Rightarrow> jsnum \<Rightarrow> response js \<Rightarrow> treasury_page \<Rightarrow> treasury_page" where
  "treasury_refresh env now fetched p =
     treasury_refresh_done env now (snd (read treasury_path default_maxBytes fetched)) p"

definition treasury_visible :: "js_env \<Rightarrow> jsnum \<Rightarrow> treasury_page \<Rightarrow> treasury_page" where
  "treasury_visible env now p =
     (case treasury_paint env now p of (q, Inl _) \<Rightarrow> q | (q, Inr _) \<Rightarrow> treasury_refresh_start q)"

definition treasury_init :: "(string \<rightharpoonup> jsstr) \<Rightarrow> treasury_page option" where
  "treasury_init els =
     (if els ''amount'' = None then None
      else Some (treasury_refresh_start \<lparr>elements = els, status = JNull, t_busy = False, t_pending = 0\<rparr>))"

inductive treasury_step :: "js_env \<Rightarrow> treasury_page \<Rightarrow> treasury_page \<Rightarrow> bool" for env where
  interval: "treasury_step env p (treasury_refresh_start p)"
| finished: "0 < t_pending p \<Longrightarrow> treasury_step env p (treasury_refresh_done env now result p)"
| tick: "treasury_step env p (fst (treasury_paint env now p))"
| visible: "treasury_step env p (treasury_visible env now p)"

inductive treasury_reachable :: "js_env \<Rightarrow> (string \<rightharpoonup> jsstr) \<Rightarrow> treasury_page \<Rightarrow> bool" for env els where
  start: "treasury_init els = Some p \<Longrightarrow> treasury_reachable env els p"
| step: "treasury_reachable env els p \<Longrightarrow> treasury_step env p q \<Longrightarrow> treasury_reachable env els q"

section \<open>Amounts\<close>

lemma round_half_even_le: "of_int (round_half_even x) \<le> x + 1"
proof -
  have "of_int \<lfloor>x\<rfloor> \<le> x + 1" using of_int_floor_le [of x] by linarith
  then show ?thesis by (simp add: round_half_even_def Let_def)
qed

lemma round_pos_bound:
  assumes "0 < q"
  shows "0 \<le> round_pos q" "round_pos q \<le> 2 * q + 1"
proof -
  let ?e = "max (- 1074) (log2_floor q - 52)"
  let ?r = "round_half_even (q / pow2 ?e)"
  have "0 \<le> ?r" using assms by (intro round_half_even_ge) (simp add: less_imp_le)
  then show "0 \<le> round_pos q" by (simp add: round_pos_def Let_def less_imp_le)
  have "pow2 (- 1074) \<le> 1" by (simp add: pow2_def power_int_minus field_simps)
  moreover have "pow2 (log2_floor q - 52) \<le> q"
    using pow2_mono [of "log2_floor q - 52" "log2_floor q"] log2_floor_spec(1) [OF assms] by simp
  ultimately have p: "pow2 ?e \<le> q + 1" using assms by (cases "- 1074 \<le> log2_floor q - 52") (simp_all add: max_def)
  have "of_int ?r \<le> q / pow2 ?e + 1" by (rule round_half_even_le)
  then have "of_int ?r * pow2 ?e \<le> (q / pow2 ?e + 1) * pow2 ?e" by (intro mult_right_mono) (simp_all add: less_imp_le)
  also have "\<dots> = q + pow2 ?e" using pow2_pos [of ?e] by (simp add: field_simps del: pow2_pos)
  finally show "round_pos q \<le> 2 * q + 1" using p by (simp add: round_pos_def Let_def)
qed

lemma round_double_finite:
  assumes "0 \<le> q" "q \<le> 10 ^ 24"
  shows "\<exists>r. round_double q = Fin r \<and> 0 \<le> r"
proof (cases "q = 0")
  case False
  then have q: "0 < q" using assms(1) by simp
  have "2 * q + 1 < 2 ^ 1024" using assms(2) by simp
  then have "round_pos q < 2 ^ 1024" using round_pos_bound(2) [OF q] by linarith
  then show ?thesis using q round_pos_bound(1) [OF q] by (simp add: round_double_def Let_def)
qed (simp add: round_double_def)

lemma dec_val_bound: "list_all is_digit ds \<Longrightarrow> dec_val ds < 10 ^ length ds"
proof (induction ds rule: rev_induct)
  case (snoc d ds)
  have "dec_val (ds @ [d]) = 10 * dec_val ds + (d - 48)" by (simp add: dec_val_def)
  moreover have "d - 48 < 10" using snoc(2) by (auto simp: is_digit_def)
  ultimately show ?case using snoc by simp
qed (simp add: dec_val_def)

lemma trim_id: "list_all (\<lambda>c. \<not> js_space c) s \<Longrightarrow> trim s = s"
proof -
  assume s: "list_all (\<lambda>c. \<not> js_space c) s"
  have d: "dropWhile js_space t = t" if "\<forall>c \<in> set t. \<not> js_space c" for t using that by (cases t) auto
  show ?thesis using s by (simp add: trim_def d list_all_iff)
qed

lemma takeWhile_digits:
  assumes "list_all is_digit i"
  shows "takeWhile is_digit i = i" "dropWhile is_digit i = []"
    "takeWhile is_digit (i @ 46 # r) = i" "dropWhile is_digit (i @ 46 # r) = 46 # r"
  using assms by (auto simp: list_all_iff takeWhile_append2 dropWhile_append2 is_digit_def)

lemma string_to_number_amount:
  assumes "list_all is_digit i" "1 \<le> length i" "f = [] \<and> g = [] \<or> f = 46 # g \<and> list_all is_digit g"
  shows "string_to_number (i @ f) = round_double (decimal i g 0)"
proof -
  have "\<not> js_space c" if "is_digit c \<or> c = 46" for c using that by (auto simp: is_digit_def js_space_def)
  then have "list_all (\<lambda>c. \<not> js_space c) (i @ f)" using assms(1,3) by (auto simp: list_all_iff)
  then have t: "trim (i @ f) = i @ f" by (rule trim_id)
  obtain c i' where i: "i = c # i'" "is_digit c" using assms(1,2) by (cases i) auto
  define w where "w = take 2 (i @ f)"
  have "set w \<subseteq> set (i @ f)" unfolding w_def by (rule set_take_subset)
  then have "\<forall>x \<in> set w. is_digit x \<or> x = 46" using assms(1,3) by (auto simp: list_all_iff)
  then have r: "radix_prefix (i @ f) = None" unfolding radix_prefix_def w_def [symmetric] by (auto simp: lit_def is_digit_def)
  have ne: "i \<noteq> []" using i by simp
  have u: "unsigned_decimal (i @ f) = Some (decimal i g 0)"
    using assms(3)
  proof
    assume "f = [] \<and> g = []"
    then show ?thesis using ne by (simp add: unsigned_decimal_def exponent_def takeWhile_digits [OF assms(1)])
  next
    assume g: "f = 46 # g \<and> list_all is_digit g"
    then have "list_all is_digit g" by simp
    then show ?thesis using g ne
      by (simp add: unsigned_decimal_def exponent_def takeWhile_digits [OF assms(1)] takeWhile_digits(1,2) [of g])
  qed
  have "c \<noteq> 45 \<and> c \<noteq> 43 \<and> i @ f \<noteq> lit ''Infinity''" using i by (auto simp: is_digit_def lit_def)
  then show ?thesis using t r u i(1) by (simp add: string_to_number_def)
qed

lemma amount_number:
  assumes "list_all is_digit i" "1 \<le> length i" "length i \<le> 15"
    and f: "f = [] \<and> g = [] \<or> f = 46 # g \<and> list_all is_digit g \<and> 1 \<le> length g \<and> length g \<le> 8"
  shows "string_to_number (i @ f) = round_double (of_nat (dec_val (i @ g)) / 10 ^ length g) \<and>
    (\<exists>q \<ge> 0. string_to_number (i @ f) = Fin q)"
proof -
  have d: "decimal i g 0 = of_nat (dec_val (i @ g)) / 10 ^ length g"
    by (simp add: decimal_def power_int_minus divide_inverse)
  have n: "string_to_number (i @ f) = round_double (decimal i g 0)" using assms by (intro string_to_number_amount) auto
  have "list_all is_digit (i @ g)" "length (i @ g) \<le> 23" using assms by auto
  then have "dec_val (i @ g) < 10 ^ 23"
    using dec_val_bound [of "i @ g"] power_increasing [of "length (i @ g)" 23 "10 :: nat"] by linarith
  then have "of_nat (dec_val (i @ g)) \<le> (of_nat (10 ^ 23) :: rat)" by (simp only: of_nat_le_iff)
  moreover have "(of_nat (dec_val (i @ g)) :: rat) / 10 ^ length g \<le> of_nat (dec_val (i @ g))"
    by (simp add: divide_le_eq mult_le_cancel_left1)
  ultimately have "decimal i g 0 \<le> 10 ^ 24" unfolding d by simp
  moreover have "0 \<le> decimal i g 0" unfolding d by simp
  ultimately obtain r where "round_double (decimal i g 0) = Fin r" "0 \<le> r" using round_double_finite by blast
  then show ?thesis using n d by simp
qed

lemma amount_reE:
  assumes "re_test amount_re s"
  obtains i f g where "s = i @ f" "list_all is_digit i" "1 \<le> length i" "length i \<le> 15"
    "f = [] \<and> g = [] \<or> f = 46 # g \<and> list_all is_digit g \<and> 1 \<le> length g \<and> length g \<le> 8"
  using assms unfolding amount_shape by metis

lemma validAmount_re: "re_test amount_re s \<Longrightarrow> validAmount (JStr s)"
  by (elim amount_reE) (auto simp: validAmount_def amount_shape dest: amount_number)

text \<open>
  C37. The amounts the treasury page accepts are exactly the strings of 1 to 15 digits with an optional point and
  1 to 8 further digits: the finiteness test after the regular expression rejects none of them. Number converts
  such a string to the double nearest to the decimal it denotes, a finite non-negative number.
\<close>

theorem validAmount_shape:
  "validAmount v \<longleftrightarrow> (\<exists>i f g. v = JStr (i @ f) \<and> list_all is_digit i \<and> 1 \<le> length i \<and> length i \<le> 15 \<and>
     (f = [] \<and> g = [] \<or> f = 46 # g \<and> list_all is_digit g \<and> 1 \<le> length g \<and> length g \<le> 8) \<and>
     string_to_number (i @ f) = round_double (of_nat (dec_val (i @ g)) / 10 ^ length g) \<and>
     (\<exists>q \<ge> 0. string_to_number (i @ f) = Fin q))"
  (is "_ \<longleftrightarrow> (\<exists>i f g. ?R i f g)")
proof
  assume "validAmount v"
  then obtain s where s: "v = JStr s" "re_test amount_re s" by (auto simp: validAmount_def split: jsval.splits)
  obtain i f g where i: "s = i @ f" "list_all is_digit i" "1 \<le> length i" "length i \<le> 15"
    and g: "f = [] \<and> g = [] \<or> f = 46 # g \<and> list_all is_digit g \<and> 1 \<le> length g \<and> length g \<le> 8"
    by (rule amount_reE [OF s(2)])
  have "v = JStr (i @ f)" using s(1) i(1) by simp
  then have "?R i f g" using i(2-4) g amount_number [OF i(2-4) g] by iprover
  then show "\<exists>i f g. ?R i f g" by blast
next
  assume "\<exists>i f g. ?R i f g"
  then obtain i f g where r: "?R i f g" by blast
  then have "re_test amount_re (i @ f)" unfolding amount_shape by metis
  moreover obtain q where "string_to_number (i @ f) = Fin q" "v = JStr (i @ f)" using r by blast
  ultimately show "validAmount v" by (simp add: validAmount_def)
qed

section \<open>Painting\<close>

lemma set_element_elements:
  "elements (set_element n s p) m = (if m = n then map_option (\<lambda>_. s) (elements p n) else elements p m)"
  by (simp add: set_element_def split: option.split)

lemma set_element_frame [simp]:
  "status (set_element n s p) = status p" "t_busy (set_element n s p) = t_busy p" "t_pending (set_element n s p) = t_pending p"
  "dom (elements (set_element n s p)) = dom (elements p)"
  by (auto simp: set_element_def split: option.split)

lemma unavailable_frame [simp]:
  "status (unavailable p) = status p" "t_busy (unavailable p) = t_busy p" "t_pending (unavailable p) = t_pending p"
  "dom (elements (unavailable p)) = dom (elements p)" "elements (unavailable p) ''address'' = elements p ''address''"
  "elements (unavailable p) ''amount'' = map_option (\<lambda>_. lit ''Status temporarily unavailable'') (elements p ''amount'')"
  "elements (unavailable p) ''height'' = map_option (\<lambda>_. lit ''Unavailable'') (elements p ''height'')"
  "elements (unavailable p) ''unlocked'' = map_option (\<lambda>_. lit ''Spendable balance unavailable'') (elements p ''unlocked'')"
  by (simp_all add: unavailable_def set_element_elements)

lemma validate_date:
  assumes "validate_status env st now = Inr True"
  shows "\<exists>d. locale_date env (opt_get st ''updatedAt'') = Inr d" "opt_get st ''treasuryAddress'' = JStr betaTreasury"
proof -
  have st: "truthy st" "fresh env st now = Inr True" "has st ''treasuryAddress'' (\<lambda>x. x = JStr betaTreasury) = Inr True"
    using assms unfolding validate_status_def by (simp_all add: js_and_True)
  obtain u s where u: "get st ''updatedAt'' = Inr u" "to_string env u = Inr s"
    using st(1,2) by (auto simp: fresh_def rbind_Inr_iff)
  then have "\<exists>d. new_date env u = Inr d" by (cases u) (auto simp: new_date_def)
  then show "\<exists>d. locale_date env (opt_get st ''updatedAt'') = Inr d" using u(1) by (auto simp: locale_date_def opt_get_def)
  show "opt_get st ''treasuryAddress'' = JStr betaTreasury" using st(3) by (auto simp: has_True opt_get_def)
qed

lemma treasury_paint_valid:
  assumes "validate_status env (status p) now = Inr True"
  shows "\<exists>q. treasury_paint env now p = (q, Inr ()) \<and> status q = status p \<and> t_busy q = t_busy p \<and> t_pending q = t_pending p \<and>
    dom (elements q) = dom (elements p) \<and>
    elements q ''address'' = map_option (\<lambda>_. betaTreasury) (elements p ''address'') \<and>
    elements q ''amount'' = map_option (\<lambda>_. money env (opt_get (status p) ''currentBalance'')) (elements p ''amount'')"
  using assms validate_date [OF assms] by (auto simp: treasury_paint_def Let_def set_element_elements)

lemma treasury_paint_cases:
  obtains (throws) e where "validate_status env (status p) now = Inl e" "treasury_paint env now p = (p, Inl e)"
  | (rejects) "validate_status env (status p) now = Inr False" "treasury_paint env now p = (unavailable p, Inr ())"
  | (accepts) q where "validate_status env (status p) now = Inr True" "treasury_paint env now p = (q, Inr ())"
      "status q = status p" "t_busy q = t_busy p" "t_pending q = t_pending p" "dom (elements q) = dom (elements p)"
      "elements q ''address'' = map_option (\<lambda>_. betaTreasury) (elements p ''address'')"
      "elements q ''amount'' = map_option (\<lambda>_. money env (opt_get (status p) ''currentBalance'')) (elements p ''amount'')"
proof (cases "validate_status env (status p) now")
  case (Inl e)
  then show ?thesis using throws by (simp add: treasury_paint_def)
next
  case (Inr b)
  show ?thesis
  proof (cases b)
    case True
    then show ?thesis using treasury_paint_valid [of env p now] Inr accepts by auto
  next
    case False
    then show ?thesis using Inr rejects by (simp add: treasury_paint_def)
  qed
qed

lemma treasury_paint_poll:
  "t_busy (fst (treasury_paint env now p)) = t_busy p \<and> t_pending (fst (treasury_paint env now p)) = t_pending p"
  by (rule treasury_paint_cases [of env p now]) simp_all

interpretation treasury_poll: polled_page t_busy t_pending treasury_refresh_start
  "\<lambda>(env, now, result). treasury_refresh_done env now result" "\<lambda>(env, now) p. fst (treasury_paint env now p)"
  by unfold_locales (auto simp: treasury_refresh_start_def treasury_refresh_done_def treasury_paint_poll)

definition treasury_ok :: "(string \<rightharpoonup> jsstr) \<Rightarrow> treasury_page \<Rightarrow> bool" where
  "treasury_ok els p \<longleftrightarrow> one_download t_busy t_pending p \<and> dom (elements p) = dom els \<and>
     elements p ''address'' \<in> {els ''address'', map_option (\<lambda>_. betaTreasury) (els ''address'')}"

lemma treasury_paint_ok:
  assumes "treasury_ok els p"
  shows "treasury_ok els (fst (treasury_paint env now p))"
proof -
  have o: "one_download t_busy t_pending (fst (treasury_paint env now p))"
    using treasury_poll.move_keeps [of p "(env, now)"] assms by (simp add: treasury_ok_def)
  have d: "dom (elements p) = dom els" using assms by (simp add: treasury_ok_def)
  show ?thesis
  proof (cases rule: treasury_paint_cases [of env p now])
    case (accepts q)
    then show ?thesis using o d map_option_dom [OF d, of betaTreasury "''address''"] by (simp add: treasury_ok_def)
  qed (use assms o in \<open>auto simp: treasury_ok_def\<close>)
qed

lemma treasury_start_ok: "treasury_ok els p \<Longrightarrow> treasury_ok els (treasury_refresh_start p)"
  using treasury_poll.start_keeps [of p] by (auto simp: treasury_ok_def treasury_refresh_start_def)

lemma treasury_reachable_ok: "treasury_reachable env els p \<Longrightarrow> treasury_ok els p"
proof (induction rule: treasury_reachable.induct)
  case (start p)
  then show ?case
    by (auto simp: treasury_init_def treasury_refresh_start_def treasury_ok_def one_download_def split: if_splits)
next
  case (step p q)
  from step(2,3) show ?case
  proof cases
    case (finished now result)
    let ?p = "p\<lparr>t_pending := t_pending p - 1, status := (case result of Inl _ \<Rightarrow> JNull | Inr data \<Rightarrow> data), t_busy := False\<rparr>"
    have "treasury_ok els ?p"
      using step(3) finished by (auto simp: treasury_ok_def one_download_def split: if_splits)
    then show ?thesis unfolding finished treasury_refresh_done_def by (rule treasury_paint_ok)
  next
    case (visible now)
    have "treasury_visible env now p \<in> {fst (treasury_paint env now p), treasury_refresh_start (fst (treasury_paint env now p))}"
      by (auto simp: treasury_visible_def split: prod.split sum.split)
    then show ?thesis using visible treasury_paint_ok [OF step(3), of env now] treasury_start_ok by auto
  qed (auto intro: treasury_start_ok treasury_paint_ok)
qed

text \<open>
  C12. In every state the treasury page can reach, at most one download is pending, and the address element shows
  its initial text or the beta treasury's address, never another. A repaint at time now either throws and
  changes nothing, or shows the balance of a report that passes every check at now, or shows in the amount and
  height elements that the status is unavailable.
\<close>

theorem treasury_page_is_current:
  fixes env now p
  assumes "treasury_reachable env els p"
  defines "q \<equiv> fst (treasury_paint env now p)"
  shows "t_pending p \<le> 1 \<and>
    elements q ''address'' \<in> {els ''address'', map_option (\<lambda>_. betaTreasury) (els ''address'')} \<and>
    (case snd (treasury_paint env now p) of Inl _ \<Rightarrow> q = p
     | Inr _ \<Rightarrow>
         validate_status env (status p) now = Inr True \<and>
           elements q ''amount'' = map_option (\<lambda>_. money env (opt_get (status p) ''currentBalance'')) (els ''amount'') \<or>
         elements q ''amount'' = map_option (\<lambda>_. lit ''Status temporarily unavailable'') (els ''amount'') \<and>
           elements q ''height'' = map_option (\<lambda>_. lit ''Unavailable'') (els ''height''))"
proof -
  note ok = treasury_reachable_ok [OF assms(1)]
  have p: "t_pending p \<le> 1" "dom (elements p) = dom els" using ok by (auto simp: treasury_ok_def one_download_def)
  have a: "elements q ''address'' \<in> {els ''address'', map_option (\<lambda>_. betaTreasury) (els ''address'')}"
    using treasury_paint_ok [OF ok, of env now] by (simp add: treasury_ok_def q_def)
  show ?thesis
    by (cases rule: treasury_paint_cases [of env p now]) (use p a in \<open>simp_all add: q_def map_option_dom [OF p(2)]\<close>)
qed

definition ex_treasury :: jsval where
  "ex_treasury = obj [(''updatedAt'', JStr (lit ''2026-09-09T00:00:00Z'')), (''chain'', JStr (lit ''test'')),
     (''network'', JStr (lit ''slithy-testnet'')), (''chainHeight'', ex_num 5), (''bestBlockHash'', ex_hash),
     (''treasuryAddress'', JStr betaTreasury), (''currentBalance'', JStr (lit ''9'')), (''unlockedBalance'', JNull)]"

definition ex_treasury_page :: treasury_page where
  "ex_treasury_page = \<lparr>elements = (\<lambda>_. Some []), status = JNull, t_busy = True, t_pending = 1\<rparr>"

theorem treasury_page_is_current_witness:
  "elements (fst (treasury_paint ex_env (Fin (of_int 1788912005000))
     (treasury_refresh_done ex_env (Fin (of_int 1788912000000)) (Inr ex_treasury) ex_treasury_page))) ''address'' \<in>
   {Some [], Some betaTreasury}"
proof -
  let ?els = "\<lambda>_. Some []" and ?p = "treasury_refresh_done ex_env (Fin (of_int 1788912000000)) (Inr ex_treasury) ex_treasury_page"
  have "treasury_reachable ex_env ?els ex_treasury_page"
    by (rule treasury_reachable.start) (simp add: treasury_init_def treasury_refresh_start_def ex_treasury_page_def)
  then have r: "treasury_reachable ex_env ?els ?p"
    by (rule treasury_reachable.step [OF _ treasury_step.finished]) (simp add: ex_treasury_page_def)
  show ?thesis using treasury_page_is_current [OF r, of "Fin (of_int 1788912005000)"] by simp
qed

text \<open>A report whose time cannot be coerced to a string: every repaint throws, and every element keeps its text.\<close>

lemma treasury_frozen:
  "elements (foldl (\<lambda>p now. fst (treasury_paint env now p))
     (treasury_refresh_done env now0 (Inr (obj [(''updatedAt'', obj [(''toString'', JNull)])])) p) ticks) = elements p"
proof -
  let ?bad = "obj [(''updatedAt'', obj [(''toString'', JNull)])]"
  have "truthy ?bad" by (simp add: obj_def)
  moreover have "to_string env (obj [(''toString'', JNull)]) = Inl TypeError" by (simp add: obj_def)
  ultimately have "fresh env ?bad now = Inl TypeError" for now by (simp add: fresh_def get_obj)
  then have "validate_status env ?bad now = Inl TypeError" for now
    using \<open>truthy ?bad\<close> by (simp add: validate_status_def js_and_def)
  then have paint: "treasury_paint env now p = (p, Inl TypeError)" if "status p = ?bad" for now p
    using that by (simp add: treasury_paint_def)
  have "foldl (\<lambda>p now. fst (treasury_paint env now p)) p ticks = p" if "status p = ?bad" for p ticks
    using that by (induction ticks) (simp_all add: paint)
  then show ?thesis by (simp add: treasury_refresh_done_def paint)
qed

end
