(* ===== verification/Site_Menu.thy ===== *)
theory Site_Menu
  imports Report_Checks
begin

text \<open>
  \<^verbatim>\<open>src/site/site.js\<close>: the navigation menu of small screens. The state is the class \<^verbatim>\<open>is-open\<close> of the
  navigation, the attributes \<^verbatim>\<open>aria-expanded\<close> and \<^verbatim>\<open>hidden\<close> of the button, the class \<^verbatim>\<open>menu-ready\<close> of
  the header, and whether the script moved the focus to the button. A click is described by which of the
  elements contain its target; it reaches the listeners from the inside out, the document last.
\<close>

section \<open>Model\<close>

record menu =
  is_open_class :: bool
  aria_expanded :: "jsstr option"
  toggle_hidden :: bool
  menu_ready :: bool
  toggle_focused :: bool

definition setOpen :: "bool \<Rightarrow> menu \<Rightarrow> menu" where
  "setOpen opened m = m\<lparr>is_open_class := opened, aria_expanded := Some (lit (if opened then ''true'' else ''false''))\<rparr>"

definition expanded :: "menu \<Rightarrow> bool" where
  "expanded m \<longleftrightarrow> aria_expanded m = Some (lit ''true'')"

record click_target =
  in_toggle :: bool
  in_nav :: bool
  in_link :: bool
  in_header :: bool

definition toggle_click :: "menu \<Rightarrow> menu" where
  "toggle_click m = setOpen (\<not> expanded m) m"

definition nav_click :: "click_target \<Rightarrow> menu \<Rightarrow> menu" where
  "nav_click c m = (if in_link c then setOpen False m else m)"

definition document_keydown :: "jsstr \<Rightarrow> menu \<Rightarrow> menu" where
  "document_keydown key m =
     (if key = lit ''Escape'' \<and> expanded m then (setOpen False m)\<lparr>toggle_focused := True\<rparr> else m)"

definition document_click :: "click_target \<Rightarrow> menu \<Rightarrow> menu" where
  "document_click c m = (if \<not> in_header c then setOpen False m else m)"

definition mobile_change :: "menu \<Rightarrow> menu" where
  "mobile_change m = setOpen False m"

datatype event = Click click_target | Keydown jsstr | MobileChange

primrec menu_step :: "menu \<Rightarrow> event \<Rightarrow> menu" where
  "menu_step m (Click c) =
     document_click c ((if in_nav c then nav_click c else (\<lambda>m. m)) ((if in_toggle c then toggle_click else (\<lambda>m. m)) m))"
| "menu_step m (Keydown key) = document_keydown key m"
| "menu_step m MobileChange = mobile_change m"

text \<open>The script runs when the page has the three elements; it shows the button and marks the header.\<close>

definition menu_start :: "bool \<Rightarrow> bool \<Rightarrow> bool \<Rightarrow> menu \<Rightarrow> menu option" where
  "menu_start header toggle nav m =
     (if header \<and> toggle \<and> nav then Some (m\<lparr>toggle_hidden := False, menu_ready := True\<rparr>) else None)"

text \<open>The elements as the pages declare them: closed, the button hidden.\<close>

definition menu_page :: menu where
  "menu_page = \<lparr>is_open_class = False, aria_expanded = Some (lit ''false''), toggle_hidden = True, menu_ready = False,
     toggle_focused = False\<rparr>"

section \<open>The menu as a switch\<close>

text \<open>
  What a visitor expects: one switch, which the button flips, and which a link, a click outside the
  header, Escape and a change of the screen width turn off.
\<close>

primrec switch_step :: "bool \<Rightarrow> event \<Rightarrow> bool" where
  "switch_step b (Click c) = (in_header c \<and> \<not> (in_nav c \<and> in_link c) \<and> (if in_toggle c then \<not> b else b))"
| "switch_step b (Keydown key) = (b \<and> key \<noteq> lit ''Escape'')"
| "switch_step b MobileChange = False"

definition menu_ok :: "menu \<Rightarrow> bool" where
  "menu_ok m \<longleftrightarrow> aria_expanded m = Some (lit (if is_open_class m then ''true'' else ''false'')) \<and>
     \<not> toggle_hidden m \<and> menu_ready m"

lemma setOpen_ok [simp]:
  "is_open_class (setOpen b m) = b" "toggle_hidden (setOpen b m) = toggle_hidden m" "menu_ready (setOpen b m) = menu_ready m"
  "aria_expanded (setOpen b m) = Some (lit (if b then ''true'' else ''false''))"
  by (simp_all add: setOpen_def)

lemma menu_ok_expanded: "menu_ok m \<Longrightarrow> expanded m = is_open_class m"
  by (simp add: menu_ok_def expanded_def lit_def)

lemma menu_step_refines:
  assumes "menu_ok m"
  shows "menu_ok (menu_step m e) \<and> is_open_class (menu_step m e) = switch_step (is_open_class m) e"
  using assms menu_ok_expanded [OF assms]
  by (cases e) (auto simp: menu_ok_def document_click_def nav_click_def toggle_click_def document_keydown_def mobile_change_def)

text \<open>
  C38. The menu is a switch. Started on a page with the three elements and driven by any sequence of clicks, keys
  and screen changes, the navigation is open exactly when the switch specification says so, the attribute
  aria-expanded always agrees with the class is-open, and the button stays visible.
\<close>

theorem menu_refines_switch:
  "\<exists>m. menu_start True True True menu_page = Some m \<and>
     is_open_class (foldl menu_step m es) = foldl switch_step False es \<and>
     aria_expanded (foldl menu_step m es) = Some (lit (if foldl switch_step False es then ''true'' else ''false'')) \<and>
     \<not> toggle_hidden (foldl menu_step m es) \<and> menu_ready (foldl menu_step m es)"
proof -
  let ?m = "menu_page\<lparr>toggle_hidden := False, menu_ready := True\<rparr>"
  have run: "menu_ok (foldl menu_step m es) \<and> is_open_class (foldl menu_step m es) = foldl switch_step (is_open_class m) es"
    if "menu_ok m" for m es
    using that by (induction es arbitrary: m) (simp_all add: menu_step_refines)
  have "menu_ok ?m" "is_open_class ?m = False" by (simp_all add: menu_ok_def menu_page_def)
  then show ?thesis using run [of ?m es] by (auto simp: menu_start_def menu_ok_def)
qed

end
