(* ===== verification/Py_Value.thy ===== *)
theory Py_Value
  imports Report_Checks
begin

text \<open>
  What the Python services under \<^verbatim>\<open>src/services\<close> use of their language: exceptions as values, decimal
  amounts, and the values of \<^verbatim>\<open>json\<close>. A \<^verbatim>\<open>Decimal\<close> is its exact rational value: the amounts added here
  have eight decimals and at most twelve integer digits, within the 28 digits of the default
  context, so no sum is rounded. Strings are code units, as for the scripts that read the services'
  output.
\<close>

datatype py_error = CalledProcessError | PyRuntimeError | PyValueError | PyKeyError | PyAttributeError | PyOverflowError | PyOSError

type_synonym 'a py = "py_error + 'a"

section \<open>Formatting amounts\<close>

text \<open>\<open>pad k n\<close> are the last \<open>k\<close> decimal digits of \<open>n\<close>.\<close>

primrec pad :: "nat \<Rightarrow> nat \<Rightarrow> jsstr" where
  "pad 0 n = []"
| "pad (Suc k) n = pad k (n div 10) @ [48 + n mod 10]"

text \<open>\<^verbatim>\<open>f"{x:.8f}"\<close>: rounded to eight decimals, ties to even.\<close>

definition fmt8 :: "rat \<Rightarrow> jsstr" where
  "fmt8 q = (let n = nat (round_half_even (\<bar>q\<bar> * 10 ^ 8)) in
     (if q < 0 then [45] else []) @ digits (n div 10 ^ 8) @ 46 # pad 8 (n mod 10 ^ 8))"

lemma pad_length [simp]: "length (pad k n) = k"
  by (induction k arbitrary: n) simp_all

lemma pad_digits: "list_all is_digit (pad k n)"
proof (induction k arbitrary: n)
  case (Suc k)
  have "n mod 10 < 10" by simp
  then have "is_digit (48 + n mod 10)" unfolding is_digit_def by linarith
  then show ?case using Suc by simp
qed simp

lemma digits_are_digits: "list_all is_digit (digits n)"
proof (induction n rule: digits.induct)
  case (1 n)
  have "n mod 10 < 10" by simp
  then have "is_digit (48 + n mod 10)" unfolding is_digit_def by linarith
  moreover have "n < 10 \<Longrightarrow> is_digit (48 + n)" unfolding is_digit_def by linarith
  ultimately show ?case using 1 by (subst digits.simps) simp
qed

lemma digits_length: "0 < k \<Longrightarrow> n < 10 ^ k \<Longrightarrow> 1 \<le> length (digits n) \<and> length (digits n) \<le> k"
proof (induction n arbitrary: k rule: digits.induct)
  case (1 n)
  show ?case
  proof (cases "n < 10")
    case False
    then obtain j where k: "k = Suc j" "0 < j" using 1 by (cases k; cases "k = 1") auto
    then have "n div 10 < 10 ^ j" using 1(3) by (simp add: less_mult_imp_div_less mult.commute)
    then have "length (digits (n div 10)) \<le> j" using 1(1) [OF False k(2)] by simp
    then show ?thesis using False k by (subst (1 2) digits.simps) simp
  qed (use 1 in \<open>subst (1 2) digits.simps, simp\<close>)
qed

lemma fmt8_amount:
  assumes "0 \<le> q" "q < 10 ^ 15 - 1"
  shows "re_test amount_re (fmt8 q)"
proof -
  let ?n = "nat (round_half_even (q * 10 ^ 8))"
  have "of_int (round_half_even (q * 10 ^ 8)) \<le> q * 10 ^ 8 + 1"
  proof -
    have "of_int \<lfloor>q * 10 ^ 8\<rfloor> \<le> q * 10 ^ 8 + 1" using of_int_floor_le [of "q * 10 ^ 8"] by linarith
    then show ?thesis by (simp add: round_half_even_def Let_def)
  qed
  also have "\<dots> < of_int (10 ^ 23)" using assms(2) by simp
  finally have "round_half_even (q * 10 ^ 8) < 10 ^ 23" by (simp only: of_int_less_iff)
  then have "?n div 10 ^ 8 < 10 ^ 15" by (simp add: less_mult_imp_div_less)
  then have len: "1 \<le> length (digits (?n div 10 ^ 8)) \<and> length (digits (?n div 10 ^ 8)) \<le> 15"
    by (intro digits_length) simp_all
  have "fmt8 q = digits (?n div 10 ^ 8) @ 46 # pad 8 (?n mod 10 ^ 8)" using assms(1) by (simp add: fmt8_def Let_def)
  then show ?thesis
    unfolding amount_shape using len digits_are_digits pad_digits [of 8]
    by (intro exI [of _ "digits (?n div 10 ^ 8)"] exI [of _ "46 # pad 8 (?n mod 10 ^ 8)"]) simp
qed

section \<open>Values\<close>

text \<open>
  The values of \<^verbatim>\<open>json.loads\<close>; a string is its code points. What a script reads of them after
  \<^verbatim>\<open>json.dump\<close> and \<^verbatim>\<open>JSON.parse\<close>: integers become the nearest double, strings their code units.
\<close>

datatype pyval = PNone | PBool bool | PInt int | PFloat jsnum | PStr "nat list" | PList "pyval list" | PDict "(nat list \<times> pyval) list"

definition utf16 :: "nat list \<Rightarrow> jsstr" where
  "utf16 s = concat (map (\<lambda>c. if c < 65536 then [c]
     else [55296 + (c - 65536) div 1024, 56320 + (c - 65536) mod 1024]) s)"

fun to_js :: "pyval \<Rightarrow> jsval" where
  "to_js PNone = JNull"
| "to_js (PBool b) = JBool b"
| "to_js (PInt n) = JNum (round_double (of_int n))"
| "to_js (PFloat x) = JNum x"
| "to_js (PStr s) = JStr (utf16 s)"
| "to_js (PList xs) = JArr (map to_js xs)"
| "to_js (PDict ps) = JObj (map (\<lambda>(k, v). (utf16 k, to_js v)) ps)"

definition pget :: "(nat list \<times> pyval) list \<Rightarrow> string \<Rightarrow> pyval option" where
  "pget d k = map_of d (lit k)"

lemma utf16_ascii: "\<forall>c \<in> set s. c < 65536 \<Longrightarrow> utf16 s = s"
  by (induction s) (simp_all add: utf16_def)

lemma lit_ascii: "c \<in> set (lit s) \<Longrightarrow> c < 256"
  by (auto simp: lit_def)

lemma utf16_lit [simp]: "utf16 (lit s) = lit s"
  by (rule utf16_ascii) (auto dest: lit_ascii)

text \<open>Reading a property of a published dictionary whose keys are plain names.\<close>

lemma get_to_js:
  assumes "\<forall>(k, v) \<in> set d. \<exists>s. k = lit s"
  shows "get (to_js (PDict d)) k = Inr (case pget d k of None \<Rightarrow> JUndefined | Some v \<Rightarrow> to_js v)"
proof -
  have "map_of (map (\<lambda>(k, v). (utf16 k, to_js v)) d) (lit k) = map_option to_js (map_of d (lit k))"
    using assms by (induction d) auto
  then show ?thesis by (simp add: get_def pget_def split: option.split)
qed

lemma to_js_count:
  assumes "n < 2 ^ 53"
  shows "to_js (PInt (int n)) = ex_num (int n)"
proof -
  have "\<bar>int n\<bar> < 2 ^ 53" using assms by simp
  then show ?thesis by (simp only: to_js.simps round_double_int ex_num_def)
qed

section \<open>Plain texts\<close>

text \<open>A text without characters outside the basic plane is the same to Python and to a script.\<close>

primrec classes_within :: "nat set \<Rightarrow> regex \<Rightarrow> bool" where
  "classes_within A RZero \<longleftrightarrow> True"
| "classes_within A REps \<longleftrightarrow> True"
| "classes_within A (RClass P) \<longleftrightarrow> Collect P \<subseteq> A"
| "classes_within A (RAlt r s) \<longleftrightarrow> classes_within A r \<and> classes_within A s"
| "classes_within A (RSeq r s) \<longleftrightarrow> classes_within A r \<and> classes_within A s"
| "classes_within A (RStar r) \<longleftrightarrow> classes_within A r"

lemma lang_within: "classes_within A r \<Longrightarrow> w \<in> lang r \<Longrightarrow> set w \<subseteq> A"
  by (induction r arbitrary: w) fastforce+

lemma classes_within_rep [simp]: "classes_within A r \<Longrightarrow> classes_within A (re_rep r n)"
  by (induction n) simp_all

lemma digit_class [simp]: "classes_within {..<65536} (RClass is_digit)"
  by (auto simp: is_digit_def)

lemma lit_class [simp]: "classes_within {..<65536} (re_lit s)"
proof (induction s)
  case (Cons c s)
  have "of_char c < (256 :: nat)" by simp
  then have "of_char c < (65536 :: nat)" by linarith
  then show ?case using Cons by (simp add: re_lit_def)
qed (simp add: re_lit_def)

lemma iso_utc_plain:
  assumes "iso_utc s = Some t"
  shows "utf16 s = s" "s \<noteq> []"
proof -
  have m: "re_test iso_re s" using assms by (simp add: iso_utc_def Let_def split: if_splits)
  have "classes_within {..<65536} iso_re" by (simp add: iso_re_def del: classes_within.simps(3))
  then have "set s \<subseteq> {..<65536}" using m lang_within unfolding re_test_lang by blast
  then show "utf16 s = s" by (intro utf16_ascii) auto
  show "s \<noteq> []" using m by (auto simp: iso_re_def)
qed

lemma utf16_fmt8:
  assumes "0 \<le> q" "q < 10 ^ 15 - 1"
  shows "utf16 (fmt8 q) = fmt8 q"
proof (rule utf16_ascii)
  have "\<forall>c \<in> set (fmt8 q). is_digit c \<or> c = 46"
    using fmt8_amount [OF assms] unfolding amount_shape by (auto simp: list_all_iff)
  then show "\<forall>c \<in> set (fmt8 q). c < 65536" by (auto simp: is_digit_def)
qed

end
