(* ===== verification/Treasury_Index.thy ===== *)
theory Treasury_Index
  imports Py_Value "HOL-Library.AList"
begin

text \<open>
  The treasury index of \<^verbatim>\<open>src/services/slithy-node-status-server.py\<close>: it follows the node's chain
  block by block, keeps the unspent outputs of the treasury script, and reports the balances. The
  node is an argument: what the chain is at each call (it may be reorganised between two calls),
  the blocks by hash, which calls fail, and whether the deadline has passed after a block.
\<close>

section \<open>Model\<close>

record vin =
  vin_coinbase :: bool
  vin_txid :: "jsstr option"
  vin_vout :: "int option"

record txout =
  out_n :: int
  out_value :: rat
  out_hex :: "jsstr option"

record tx =
  tx_id :: jsstr
  tx_vin :: "vin list"
  tx_vout :: "txout list"

record block =
  previousblockhash :: "jsstr option"
  block_tx :: "tx list"

record node_rpc =
  chain_at :: "nat \<Rightarrow> jsstr list"
  block_of :: "jsstr \<rightharpoonup> block"
  call_fails :: "nat \<Rightarrow> bool"
  deadline_passed :: "nat \<Rightarrow> bool"

type_synonym utxo_key = "jsstr option \<times> int option"

record treasury_index =
  i_height :: nat
  i_hash :: jsstr
  i_utxos :: "(utxo_key \<times> (rat \<times> nat \<times> bool)) list"
  i_rewards :: rat
  i_spent :: rat

definition reset_treasury_index :: treasury_index where
  "reset_treasury_index = \<lparr>i_height = 0, i_hash = [], i_utxos = [], i_rewards = 0, i_spent = 0\<rparr>"

text \<open>Call number \<open>k\<close> to the node.\<close>

definition getblockhash :: "node_rpc \<Rightarrow> nat \<Rightarrow> nat \<Rightarrow> jsstr py" where
  "getblockhash node k height =
     (if call_fails node k \<or> length (chain_at node k) \<le> height then Inl CalledProcessError
      else Inr (chain_at node k ! height))"

definition read_block :: "node_rpc \<Rightarrow> nat \<Rightarrow> jsstr \<Rightarrow> block py" where
  "read_block node k block_hash =
     (case block_of node block_hash of None \<Rightarrow> Inl CalledProcessError
      | Some b \<Rightarrow> if call_fails node k then Inl CalledProcessError else Inr b)"

definition is_coinbase_tx :: "tx \<Rightarrow> bool" where
  "is_coinbase_tx t = list_ex vin_coinbase (tx_vin t)"

fun spend_inputs :: "vin list \<Rightarrow> (utxo_key \<times> (rat \<times> nat \<times> bool)) list \<Rightarrow> rat \<Rightarrow>
    (utxo_key \<times> (rat \<times> nat \<times> bool)) list \<times> rat" where
  "spend_inputs [] utxos spent_value = (utxos, spent_value)"
| "spend_inputs (v # vs) utxos spent_value =
     (let key = (vin_txid v, vin_vout v) in
      spend_inputs vs (AList.delete key utxos)
        (case map_of utxos key of None \<Rightarrow> spent_value | Some (x, _, _) \<Rightarrow> spent_value + x))"

text \<open>The loop over the outputs of a transaction updates the index and the received value.\<close>

fun receive_outputs :: "jsstr \<Rightarrow> nat \<Rightarrow> jsstr \<Rightarrow> bool \<Rightarrow> txout list \<Rightarrow> treasury_index \<Rightarrow> rat \<Rightarrow> treasury_index \<times> rat" where
  "receive_outputs script height txid cb [] ix received = (ix, received)"
| "receive_outputs script height txid cb (out # outs) ix received =
     (if out_hex out \<noteq> Some script then receive_outputs script height txid cb outs ix received
      else
        receive_outputs script height txid cb outs
          (ix\<lparr>i_utxos := AList.update (Some txid, Some (out_n out)) (out_value out, height, cb) (i_utxos ix),
              i_rewards := (if cb then i_rewards ix + out_value out else i_rewards ix)\<rparr>)
          (received + out_value out))"

definition scan_tx :: "jsstr \<Rightarrow> nat \<Rightarrow> tx \<Rightarrow> treasury_index \<Rightarrow> treasury_index" where
  "scan_tx script height t ix =
     (let (utxos, spent_value) = spend_inputs (tx_vin t) (i_utxos ix) 0;
          (ix', received_value) = receive_outputs script height (tx_id t) (is_coinbase_tx t) (tx_vout t)
            (ix\<lparr>i_utxos := utxos\<rparr>) 0 in
      if spent_value \<noteq> 0 then ix'\<lparr>i_spent := i_spent ix' + max 0 (spent_value - received_value)\<rparr> else ix')"

definition scan_block :: "jsstr \<Rightarrow> nat \<Rightarrow> jsstr \<Rightarrow> block \<Rightarrow> treasury_index \<Rightarrow> treasury_index" where
  "scan_block script height block_hash b ix =
     (fold (scan_tx script height) (block_tx b) ix)\<lparr>i_height := height, i_hash := block_hash\<rparr>"

text \<open>
  The loop over the heights: the index, the number of the next call, and an error, \<open>Inr False\<close> for
  the return after a reset, or \<open>Inr True\<close> when the loop ended or was left at the deadline.
\<close>

fun advance_loop :: "node_rpc \<Rightarrow> jsstr \<Rightarrow> nat list \<Rightarrow> treasury_index \<Rightarrow> nat \<Rightarrow> treasury_index \<times> nat \<times> bool py" where
  "advance_loop node script [] ix k = (ix, k, Inr True)"
| "advance_loop node script (block_height # rest) ix k =
     (case getblockhash node k block_height of Inl e \<Rightarrow> (ix, k + 1, Inl e)
      | Inr block_hash \<Rightarrow>
          (case read_block node (k + 1) block_hash of Inl e \<Rightarrow> (ix, k + 2, Inl e)
           | Inr b \<Rightarrow>
               if i_hash ix \<noteq> [] \<and> previousblockhash b \<noteq> Some (i_hash ix)
               then (reset_treasury_index, k + 2, Inr False)
               else
                 let ix' = scan_block script block_height block_hash b ix in
                 if deadline_passed node (k + 2) then (ix', k + 2, Inr True)
                 else advance_loop node script rest ix' (k + 2)))"

record treasury_report =
  treasuryAddress :: jsstr
  accruedRewards :: jsstr
  currentBalance :: jsstr
  unlockedBalance :: jsstr
  immatureBalance :: jsstr
  totalSpent :: jsstr

definition current_value :: "treasury_index \<Rightarrow> rat" where
  "current_value ix = sum_list (map (\<lambda>(_, x, _, _). x) (i_utxos ix))"

definition unlocked_value :: "nat \<Rightarrow> treasury_index \<Rightarrow> rat" where
  "unlocked_value height ix =
     sum_list (map (\<lambda>(_, x, _, _). x) (filter (\<lambda>(_, _, since, cb). \<not> cb \<or> int height - int since + 1 \<ge> 100) (i_utxos ix)))"

definition report_of :: "jsstr \<Rightarrow> nat \<Rightarrow> treasury_index \<Rightarrow> treasury_report" where
  "report_of addr height ix = \<lparr>treasuryAddress = addr, accruedRewards = fmt8 (i_rewards ix),
     currentBalance = fmt8 (current_value ix), unlockedBalance = fmt8 (unlocked_value height ix),
     immatureBalance = fmt8 (current_value ix - unlocked_value height ix), totalSpent = fmt8 (i_spent ix)\<rparr>"

text \<open>The check of the stored position at the start: a reset index when it is no longer on the chain.\<close>

definition revalidate :: "node_rpc \<Rightarrow> nat \<Rightarrow> treasury_index \<Rightarrow> nat \<Rightarrow> treasury_index \<times> nat \<times> unit py" where
  "revalidate node height ix k =
     (if i_height ix > height then (reset_treasury_index, k, Inr ())
      else if i_height ix = 0 then (ix, k, Inr ())
      else (case getblockhash node k (i_height ix) of Inl e \<Rightarrow> (ix, k + 1, Inl e)
            | Inr h \<Rightarrow> (if h \<noteq> i_hash ix then reset_treasury_index else ix, k + 1, Inr ())))"

definition advance_treasury_index ::
  "node_rpc \<Rightarrow> jsstr \<Rightarrow> jsstr \<Rightarrow> nat \<Rightarrow> treasury_index \<Rightarrow> nat \<Rightarrow> treasury_index \<times> nat \<times> treasury_report option py" where
  "advance_treasury_index node script addr height ix k =
     (if script = [] \<or> addr = [] then (ix, k, Inr None)
      else
        case revalidate node height ix k of (ix, k, Inl e) \<Rightarrow> (ix, k, Inl e)
        | (ix, k, Inr _) \<Rightarrow>
            (case advance_loop node script [i_height ix + 1 ..< min height (i_height ix + 100) + 1] ix k of
               (ix, k, Inl e) \<Rightarrow> (ix, k, Inl e)
             | (ix, k, Inr False) \<Rightarrow> (ix, k, Inr None)
             | (ix, k, Inr True) \<Rightarrow>
                 if i_height ix \<noteq> height then (ix, k, Inr None)
                 else if height = 0 then (ix, k, Inr (Some (report_of addr height ix)))
                 else
                   (case getblockhash node k height of Inl e \<Rightarrow> (ix, k + 1, Inl e)
                    | Inr h \<Rightarrow> if h \<noteq> i_hash ix then (reset_treasury_index, k + 1, Inr None)
                              else (ix, k + 1, Inr (Some (report_of addr height ix))))))"

definition treasury_status ::
  "node_rpc \<Rightarrow> jsstr \<Rightarrow> jsstr \<Rightarrow> nat \<Rightarrow> treasury_index \<Rightarrow> nat \<Rightarrow> treasury_index \<times> nat \<times> treasury_report option py" where
  "treasury_status node script addr height ix k =
     (case advance_treasury_index node script addr height ix k of
        (ix', k', Inl e) \<Rightarrow> (reset_treasury_index, k', Inl e)
      | (ix', k', Inr r) \<Rightarrow> (ix', k', Inr r))"

text \<open>The collector calls \<^verbatim>\<open>treasury_status\<close> again and again, each time at the height the node reports.\<close>

inductive index_reachable :: "node_rpc \<Rightarrow> jsstr \<Rightarrow> jsstr \<Rightarrow> treasury_index \<Rightarrow> bool" for node script addr where
  start: "index_reachable node script addr reset_treasury_index"
| collect: "index_reachable node script addr ix \<Longrightarrow> treasury_status node script addr height ix k = (ix', k', r) \<Longrightarrow>
    index_reachable node script addr ix'"

section \<open>What the index stands for\<close>

text \<open>
  The abstract index: scan the blocks of a list of hashes from an empty index. A list of hashes is
  linked when the node knows each block and each block names its predecessor in the list.
\<close>

fun scan_chain :: "node_rpc \<Rightarrow> jsstr \<Rightarrow> jsstr list \<Rightarrow> nat \<Rightarrow> treasury_index \<Rightarrow> treasury_index" where
  "scan_chain node script [] n ix = ix"
| "scan_chain node script (h # hs) n ix =
     scan_chain node script hs (n + 1) (case block_of node h of None \<Rightarrow> ix | Some b \<Rightarrow> scan_block script (n + 1) h b ix)"

definition linked_hashes :: "node_rpc \<Rightarrow> jsstr list \<Rightarrow> bool" where
  "linked_hashes node hs \<longleftrightarrow> (\<forall>h \<in> set hs. h \<noteq> [] \<and> block_of node h \<noteq> None) \<and>
     (\<forall>i. Suc i < length hs \<longrightarrow> (\<exists>b. block_of node (hs ! Suc i) = Some b \<and> previousblockhash b = Some (hs ! i)))"

definition indexed :: "node_rpc \<Rightarrow> jsstr \<Rightarrow> jsstr list \<Rightarrow> treasury_index \<Rightarrow> bool" where
  "indexed node script hs ix \<longleftrightarrow> linked_hashes node hs \<and> ix = scan_chain node script hs 0 reset_treasury_index"

lemma scan_chain_append: "scan_chain node script (hs @ hs') n ix =
    scan_chain node script hs' (n + length hs) (scan_chain node script hs n ix)"
  by (induction hs arbitrary: n ix) simp_all

lemma indexed_nil: "indexed node script [] reset_treasury_index"
  by (simp add: indexed_def linked_hashes_def)

lemma indexed_position:
  assumes "indexed node script hs ix"
  shows "i_height ix = length hs" "i_hash ix = (if hs = [] then [] else last hs)"
proof -
  have "i_height ix = length hs \<and> i_hash ix = (if hs = [] then [] else last hs)"
  proof (cases hs rule: rev_cases)
    case Nil
    then show ?thesis using assms by (simp add: indexed_def reset_treasury_index_def)
  next
    case (snoc hs' h)
    then obtain b where "block_of node h = Some b" using assms by (auto simp: indexed_def linked_hashes_def)
    then show ?thesis using assms snoc by (simp add: indexed_def scan_chain_append scan_block_def)
  qed
  then show "i_height ix = length hs" "i_hash ix = (if hs = [] then [] else last hs)" by simp_all
qed

lemma indexed_snoc:
  assumes "indexed node script hs ix" "block_of node h = Some b" "h \<noteq> []" "hs = [] \<or> previousblockhash b = Some (last hs)"
  shows "indexed node script (hs @ [h]) (scan_block script (i_height ix + 1) h b ix)"
proof -
  have "linked_hashes node (hs @ [h])" unfolding linked_hashes_def
  proof (intro conjI allI impI)
    show "\<forall>x \<in> set (hs @ [h]). x \<noteq> [] \<and> block_of node x \<noteq> None"
      using assms by (auto simp: indexed_def linked_hashes_def)
    fix i assume i: "Suc i < length (hs @ [h])"
    show "\<exists>b. block_of node ((hs @ [h]) ! Suc i) = Some b \<and> previousblockhash b = Some ((hs @ [h]) ! i)"
    proof (cases "Suc i < length hs")
      case True
      then show ?thesis using assms(1) by (simp add: indexed_def linked_hashes_def nth_append)
    next
      case False
      then have len: "length hs = Suc i" using i by simp
      then have "hs \<noteq> []" by auto
      then show ?thesis using assms(2,4) len by (simp add: nth_append last_conv_nth)
    qed
  qed
  then show ?thesis using assms indexed_position(1) [OF assms(1)] by (simp add: indexed_def scan_chain_append)
qed

section \<open>The index follows the chain\<close>

definition hashes_given :: "node_rpc \<Rightarrow> bool" where
  "hashes_given node \<longleftrightarrow> (\<forall>k. [] \<notin> set (chain_at node k))"

lemma getblockhash_nonempty: "hashes_given node \<Longrightarrow> getblockhash node k h = Inr x \<Longrightarrow> x \<noteq> []"
  by (metis getblockhash_def hashes_given_def Inl_Inr_False Inr_inject not_le nth_mem)

lemma advance_loop_indexed:
  assumes "hashes_given node" "indexed node script hs ix" "advance_loop node script [length hs + 1 ..< m] ix k = (ix', k', r)"
  shows "\<exists>hs'. indexed node script hs' ix'"
  using assms(2,3)
proof (induction "m - (length hs + 1)" arbitrary: hs ix k)
  case 0
  then show ?case by auto
next
  case (Suc n)
  have list: "[length hs + 1 ..< m] = (length hs + 1) # [length hs + 2 ..< m]" using Suc(2) by (simp add: upt_conv_Cons)
  show ?case
  proof (cases "getblockhash node k (length hs + 1)")
    case (Inl e)
    then show ?thesis using Suc(3,4) unfolding list by auto
  next
    case (Inr h)
    show ?thesis
    proof (cases "read_block node (k + 1) h")
      case (Inl e)
      then show ?thesis using Suc(3,4) Inr unfolding list by auto
    next
      case r: (Inr b)
      then have b: "block_of node h = Some b" by (auto simp: read_block_def split: option.splits if_splits)
      show ?thesis
      proof (cases "i_hash ix \<noteq> [] \<and> previousblockhash b \<noteq> Some (i_hash ix)")
        case True
        then show ?thesis using Suc(4) Inr r indexed_nil unfolding list by auto
      next
        case False
        have ne: "h \<noteq> []" using getblockhash_nonempty [OF assms(1) Inr] .
        have "hs \<noteq> [] \<Longrightarrow> i_hash ix \<noteq> []"
          using Suc(3) indexed_position(2) [OF Suc(3)] by (auto simp: indexed_def linked_hashes_def)
        then have "hs = [] \<or> previousblockhash b = Some (last hs)"
          using False indexed_position(2) [OF Suc(3)] by (cases "hs = []") simp_all
        from indexed_snoc [OF Suc(3) b ne this]
        have ix: "indexed node script (hs @ [h]) (scan_block script (length hs + 1) h b ix)"
          using indexed_position(1) [OF Suc(3)] by simp
        show ?thesis
        proof (cases "deadline_passed node (k + 2)")
          case True
          then show ?thesis using Suc(4) Inr r False ix unfolding list by (auto simp: Let_def)
        next
          case d: False
          have "advance_loop node script [length (hs @ [h]) + 1 ..< m] (scan_block script (length hs + 1) h b ix) (k + 2) = (ix', k', r)"
            using Suc(4) Inr r False d unfolding list by (auto simp: Let_def split: if_splits)
          then show ?thesis using Suc(1) [OF _ ix] Suc(2) by simp
        qed
      qed
    qed
  qed
qed

lemma revalidate_indexed:
  assumes "indexed node script hs ix" "revalidate node height ix k = (ix', k', r)"
  shows "\<exists>hs'. indexed node script hs' ix'"
  using assms indexed_nil by (auto simp: revalidate_def split: if_splits sum.splits)

lemma advance_loop_calls: "advance_loop node script heights ix k = (ix', k', r) \<Longrightarrow> k \<le> k'"
proof (induction heights arbitrary: ix k)
  case (Cons h heights)
  then show ?case by (fastforce simp: Let_def split: sum.splits if_splits)
qed simp

lemma revalidate_calls: "revalidate node height ix k = (ix', k', r) \<Longrightarrow> k \<le> k'"
  by (auto simp: revalidate_def split: if_splits sum.splits)

lemma advance_indexed:
  assumes "hashes_given node" "indexed node script hs ix"
    "advance_treasury_index node script addr height ix k = (ix', k', r)"
  shows "\<exists>hs'. indexed node script hs' ix' \<and>
    (\<forall>rep. r = Inr (Some rep) \<longrightarrow> length hs' = height \<and> rep = report_of addr height ix' \<and>
       (height = 0 \<or> (\<exists>j. k \<le> j \<and> j < k' \<and> height < length (chain_at node j) \<and> last hs' = chain_at node j ! height)))"
proof (cases "script = [] \<or> addr = []")
  case True
  then show ?thesis using assms by (auto simp: advance_treasury_index_def)
next
  case False
  obtain ix1 k1 r1 where rv: "revalidate node height ix k = (ix1, k1, r1)" by (metis prod_cases3)
  then obtain hs1 where hs1: "indexed node script hs1 ix1" using revalidate_indexed [OF assms(2)] by blast
  show ?thesis
  proof (cases r1)
    case (Inl e)
    then show ?thesis using assms(3) False rv hs1 by (auto simp: advance_treasury_index_def)
  next
    case (Inr u)
    obtain ix2 k2 r2 where lp: "advance_loop node script [i_height ix1 + 1 ..< min height (i_height ix1 + 100) + 1] ix1 k1 = (ix2, k2, r2)"
      by (metis prod_cases3)
    then obtain hs2 where hs2: "indexed node script hs2 ix2"
      using advance_loop_indexed [OF assms(1) hs1] indexed_position(1) [OF hs1] by metis
    note pos = indexed_position [OF hs2]
    note adv = assms(3) [unfolded advance_treasury_index_def rv prod.case Inr sum.case lp]
    show ?thesis
    proof (cases "r2 = Inr True \<and> i_height ix2 = height \<and> height \<noteq> 0")
      case True
      show ?thesis
      proof (cases "getblockhash node k2 height")
        case (Inl e)
        then show ?thesis using adv False True hs2 by auto
      next
        case h: (Inr h)
        have at: "height < length (chain_at node k2)" "h = chain_at node k2 ! height"
          using h by (auto simp: getblockhash_def split: if_splits)
        show ?thesis
        proof (cases "h = i_hash ix2")
          case eq: True
          have "last hs2 = h" using eq pos True by (auto split: if_splits)
          moreover have "ix' = ix2" "k' = k2 + 1" "r = Inr (Some (report_of addr height ix2))"
            using adv False True h eq by auto
          moreover have "k \<le> k2" using revalidate_calls [OF rv] advance_loop_calls [OF lp] by simp
          ultimately show ?thesis using hs2 pos(1) True at by (intro exI [of _ hs2]) auto
        qed (use adv False True h indexed_nil in auto)
      qed
    qed (use adv False hs2 pos in \<open>auto split: sum.splits bool.splits if_splits\<close>)
  qed
qed

lemma reachable_indexed: "index_reachable node script addr ix \<Longrightarrow> hashes_given node \<Longrightarrow> \<exists>hs. indexed node script hs ix"
proof (induction rule: index_reachable.induct)
  case start
  show ?case using indexed_nil by blast
next
  case (collect ix height k ix' k' r)
  then obtain hs where hs: "indexed node script hs ix" by blast
  obtain ix1 k1 r1 where a: "advance_treasury_index node script addr height ix k = (ix1, k1, r1)" by (metis prod_cases3)
  then have "\<exists>hs'. indexed node script hs' ix1" using advance_indexed [OF collect.prems hs] by blast
  then show ?case using collect.hyps(2) a indexed_nil by (cases r1) (auto simp: treasury_status_def)
qed

text \<open>
  C9. The treasury report is a scan of one chain. However the node's chain changes between calls, whichever
  calls fail and whenever the deadline cuts a scan short: if the collector's next call at a height returns a
  report, the report is what scanning from an empty index gives on a list of exactly that many blocks, each
  naming the one before as its predecessor, the last of which was at that height on the node's chain at one
  of the call's own queries. A call that fails leaves an empty index, so nothing is counted twice.
\<close>

theorem treasury_report_is_scan_of_one_chain:
  assumes "index_reachable node script addr ix" "hashes_given node"
    "treasury_status node script addr height ix k = (ix', k', r)"
  shows "(\<forall>e. r = Inl e \<longrightarrow> ix' = reset_treasury_index) \<and>
    (\<forall>rep. r = Inr (Some rep) \<longrightarrow>
      (\<exists>hs. linked_hashes node hs \<and> length hs = height \<and>
        rep = report_of addr height (scan_chain node script hs 0 reset_treasury_index) \<and>
        (height = 0 \<or> (\<exists>j. k \<le> j \<and> j < k' \<and> height < length (chain_at node j) \<and> last hs = chain_at node j ! height))))"
proof -
  obtain hs where hs: "indexed node script hs ix" using reachable_indexed [OF assms(1,2)] by blast
  obtain ix1 k1 r1 where a: "advance_treasury_index node script addr height ix k = (ix1, k1, r1)" by (metis prod_cases3)
  show ?thesis
  proof (cases r1)
    case (Inl e)
    then show ?thesis using assms(3) a by (auto simp: treasury_status_def)
  next
    case (Inr x)
    then have eq: "ix' = ix1" "k' = k1" "r = r1" using assms(3) a by (auto simp: treasury_status_def)
    obtain hs' where hs': "indexed node script hs' ix1"
      "\<forall>rep. r1 = Inr (Some rep) \<longrightarrow> length hs' = height \<and> rep = report_of addr height ix1 \<and>
         (height = 0 \<or> (\<exists>j. k \<le> j \<and> j < k1 \<and> height < length (chain_at node j) \<and> last hs' = chain_at node j ! height))"
      using advance_indexed [OF assms(2) hs a] by blast
    then show ?thesis using Inr eq by (auto simp: indexed_def)
  qed
qed

definition ex_out :: txout where
  "ex_out = \<lparr>out_n = 0, out_value = 1, out_hex = Some [1]\<rparr>"

definition ex_reward :: tx where
  "ex_reward = \<lparr>tx_id = [7], tx_vin = [\<lparr>vin_coinbase = True, vin_txid = None, vin_vout = None\<rparr>], tx_vout = [ex_out]\<rparr>"

definition ex_node :: node_rpc where
  "ex_node = \<lparr>chain_at = (\<lambda>_. [[8], [9]]), block_of = [[9] \<mapsto> \<lparr>previousblockhash = Some [8], block_tx = [ex_reward]\<rparr>],
     call_fails = (\<lambda>_. False), deadline_passed = (\<lambda>_. False)\<rparr>"

theorem treasury_report_is_scan_of_one_chain_witness:
  "\<exists>ix' k' rep hs. treasury_status ex_node [1] [2] 1 reset_treasury_index 0 = (ix', k', Inr (Some rep)) \<and>
     linked_hashes ex_node hs \<and> length hs = 1 \<and>
     rep = report_of [2] 1 (scan_chain ex_node [1] hs 0 reset_treasury_index)"
proof -
  have h: "hashes_given ex_node" by (simp add: hashes_given_def ex_node_def)
  obtain ix' k' r where run: "treasury_status ex_node [1] [2] 1 reset_treasury_index 0 = (ix', k', r)" by (metis prod_cases3)
  then have "\<exists>rep. r = Inr (Some rep)"
    by (auto simp: treasury_status_def advance_treasury_index_def revalidate_def reset_treasury_index_def ex_node_def
        getblockhash_def read_block_def scan_block_def)
  then obtain rep where "r = Inr (Some rep)" ..
  then show ?thesis using treasury_report_is_scan_of_one_chain [OF index_reachable.start h run] run by auto
qed

section \<open>Accounting\<close>

text \<open>
  Over a scan, what the treasury holds and what it has spent come from its rewards and from ordinary
  payments to it. The keys of the outputs must not repeat: a transaction id occurs once on a
  chain and an output number once in a transaction.
\<close>

definition tx_ok :: "jsstr \<Rightarrow> tx \<Rightarrow> bool" where
  "tx_ok script t \<longleftrightarrow> distinct (map out_n (tx_vout t)) \<and> (\<forall>out \<in> set (tx_vout t). 0 \<le> out_value out) \<and>
     (is_coinbase_tx t \<longrightarrow> (\<forall>v \<in> set (tx_vin t). vin_txid v = None))"

definition utxo_total :: "(utxo_key \<times> (rat \<times> nat \<times> bool)) list \<Rightarrow> rat" where
  "utxo_total us = sum_list (map (\<lambda>(_, x, _, _). x) us)"

text \<open>The unspent outputs of a well-formed index: distinct keys of transactions seen before, amounts not negative.\<close>

definition utxos_ok :: "jsstr set \<Rightarrow> (utxo_key \<times> (rat \<times> nat \<times> bool)) list \<Rightarrow> bool" where
  "utxos_ok seen us \<longleftrightarrow> distinct (map fst us) \<and> (\<forall>(key, x, _, _) \<in> set us. 0 \<le> x \<and> (\<exists>txid \<in> seen. fst key = Some txid))"

lemma delete_total:
  assumes "distinct (map fst us)"
  shows "utxo_total (AList.delete key us) = utxo_total us - (case map_of us key of None \<Rightarrow> 0 | Some (x, _, _) \<Rightarrow> x)"
  using assms
proof (induction us)
  case (Cons u us)
  obtain key' x s c where u: "u = (key', x, s, c)" by (metis prod_cases4)
  show ?case
  proof (cases "key' = key")
    case True
    then have "map_of us key = None" using Cons.prems u by (simp add: map_of_eq_None_iff)
    then show ?thesis using Cons True u by (simp add: utxo_total_def AList.delete_simps)
  next
    case False
    then show ?thesis using Cons u by (simp add: utxo_total_def AList.delete_simps)
  qed
qed (simp add: utxo_total_def)

lemma delete_ok: "utxos_ok seen us \<Longrightarrow> utxos_ok seen (AList.delete key us)"
  using distinct_delete [of us key] by (simp add: utxos_ok_def) (auto simp: AList.delete_eq)

lemma spend_inputs_ok:
  assumes "utxos_ok seen us" "spend_inputs vs us spent = (us', spent')"
  shows "utxos_ok seen us' \<and> spent' - spent = utxo_total us - utxo_total us' \<and> spent \<le> spent'"
  using assms
proof (induction vs arbitrary: us spent)
  case (Cons v vs)
  let ?key = "(vin_txid v, vin_vout v)"
  let ?x = "case map_of us ?key of None \<Rightarrow> 0 | Some (x, _, _) \<Rightarrow> x"
  have d: "distinct (map fst us)" using Cons.prems(1) by (simp add: utxos_ok_def)
  have x: "0 \<le> ?x" using Cons.prems(1) by (force simp: utxos_ok_def dest: map_of_SomeD split: option.split)
  have "spend_inputs vs (AList.delete ?key us) (spent + ?x) = (us', spent')"
    using Cons.prems(2) by (cases "map_of us ?key") (auto simp: Let_def)
  from Cons.IH [OF delete_ok [OF Cons.prems(1)] this] show ?case
    using delete_total [OF d, of ?key] x by simp
qed simp

lemma coinbase_spends_nothing:
  assumes "utxos_ok seen us" "\<forall>v \<in> set vs. vin_txid v = None" "spend_inputs vs us spent = (us', spent')"
  shows "spent' = spent"
  using assms
proof (induction vs arbitrary: us spent)
  case (Cons v vs)
  have "map_of us (vin_txid v, vin_vout v) = None"
    using Cons.prems(1,2) by (force simp: map_of_eq_None_iff utxos_ok_def)
  then show ?case using Cons.IH [OF delete_ok [OF Cons.prems(1)]] Cons.prems(2,3) by (simp add: Let_def)
qed simp

lemma update_new: "key \<notin> fst ` set us \<Longrightarrow> AList.update key x us = us @ [(key, x)]"
  by (induction us) auto

lemma receive_outputs_ok:
  assumes "receive_outputs script height txid cb outs ix received = (ix', received')"
    "utxos_ok (insert txid seen) (i_utxos ix)" "distinct (map out_n outs)" "\<forall>out \<in> set outs. 0 \<le> out_value out"
    "\<forall>out \<in> set outs. (Some txid, Some (out_n out)) \<notin> fst ` set (i_utxos ix)"
  shows "utxos_ok (insert txid seen) (i_utxos ix') \<and>
    utxo_total (i_utxos ix') = utxo_total (i_utxos ix) + (received' - received) \<and> received \<le> received' \<and>
    i_rewards ix' = i_rewards ix + (if cb then received' - received else 0) \<and> i_spent ix' = i_spent ix \<and>
    ((\<forall>out \<in> set outs. out_hex out \<noteq> Some script) \<longrightarrow> received' = received)"
  using assms
proof (induction outs arbitrary: ix received)
  case (Cons out outs)
  show ?case
  proof (cases "out_hex out = Some script")
    case True
    let ?key = "(Some txid, Some (out_n out))"
    let ?ix = "ix\<lparr>i_utxos := AList.update ?key (out_value out, height, cb) (i_utxos ix),
        i_rewards := (if cb then i_rewards ix + out_value out else i_rewards ix)\<rparr>"
    have new: "?key \<notin> fst ` set (i_utxos ix)" using Cons.prems(5) by simp
    have us: "i_utxos ?ix = i_utxos ix @ [(?key, out_value out, height, cb)]" using update_new [OF new] by simp
    have "receive_outputs script height txid cb outs ?ix (received + out_value out) = (ix', received')"
      using Cons.prems(1) True by simp
    moreover have "utxos_ok (insert txid seen) (i_utxos ?ix)"
      unfolding us using Cons.prems(2,4) new by (auto simp: utxos_ok_def)
    moreover have "\<forall>o' \<in> set outs. (Some txid, Some (out_n o')) \<notin> fst ` set (i_utxos ?ix)"
      unfolding us using Cons.prems(3,5) by (auto simp: image_iff)
    ultimately have ih: "utxos_ok (insert txid seen) (i_utxos ix') \<and>
        utxo_total (i_utxos ix') = utxo_total (i_utxos ?ix) + (received' - (received + out_value out)) \<and>
        received + out_value out \<le> received' \<and>
        i_rewards ix' = i_rewards ?ix + (if cb then received' - (received + out_value out) else 0) \<and> i_spent ix' = i_spent ?ix"
      using Cons.IH Cons.prems(3,4) by simp
    have "utxo_total (i_utxos ?ix) = utxo_total (i_utxos ix) + out_value out" unfolding us by (simp add: utxo_total_def)
    moreover have "0 \<le> out_value out" using Cons.prems(4) by simp
    ultimately show ?thesis using ih True by (cases cb) simp_all
  qed (use Cons in auto)
qed simp

definition accounted :: "bool \<Rightarrow> jsstr set \<Rightarrow> treasury_index \<Rightarrow> bool" where
  "accounted ordinary seen ix \<longleftrightarrow> utxos_ok seen (i_utxos ix) \<and> 0 \<le> i_rewards ix \<and> 0 \<le> i_spent ix \<and>
     i_rewards ix \<le> utxo_total (i_utxos ix) + i_spent ix \<and>
     (\<not> ordinary \<longrightarrow> i_rewards ix = utxo_total (i_utxos ix) + i_spent ix)"

lemma scan_tx_accounted:
  assumes "accounted ordinary seen ix" "tx_ok script t" "tx_id t \<notin> seen"
    "\<not> ordinary \<Longrightarrow> \<not> is_coinbase_tx t \<Longrightarrow> \<forall>out \<in> set (tx_vout t). out_hex out \<noteq> Some script"
  shows "accounted ordinary (insert (tx_id t) seen) (scan_tx script height t ix)"
proof -
  obtain us sp where sp: "spend_inputs (tx_vin t) (i_utxos ix) 0 = (us, sp)" by fastforce
  obtain ix' rc where rc: "receive_outputs script height (tx_id t) (is_coinbase_tx t) (tx_vout t) (ix\<lparr>i_utxos := us\<rparr>) 0 = (ix', rc)"
    by fastforce
  have s: "utxos_ok seen us" "sp = utxo_total (i_utxos ix) - utxo_total us" "0 \<le> sp"
    using spend_inputs_ok [OF _ sp, of seen] assms(1) by (simp_all add: accounted_def)
  have "utxos_ok (insert (tx_id t) seen) us" using s(1) by (auto simp: utxos_ok_def)
  moreover have "\<forall>out \<in> set (tx_vout t). (Some (tx_id t), Some (out_n out)) \<notin> fst ` set us"
    using s(1) assms(3) by (force simp: utxos_ok_def)
  ultimately have o: "utxos_ok (insert (tx_id t) seen) (i_utxos ix')" "utxo_total (i_utxos ix') = utxo_total us + rc"
      "0 \<le> rc" "i_rewards ix' = i_rewards ix + (if is_coinbase_tx t then rc else 0)" "i_spent ix' = i_spent ix"
      "(\<forall>out \<in> set (tx_vout t). out_hex out \<noteq> Some script) \<Longrightarrow> rc = 0"
    using receive_outputs_ok [OF rc] assms(2) by (simp_all add: tx_ok_def)
  have cb: "sp = 0" if "is_coinbase_tx t" using coinbase_spends_nothing [OF _ _ sp, of seen] assms(1,2) that by (simp add: accounted_def tx_ok_def)
  have scan: "scan_tx script height t ix = (if sp \<noteq> 0 then ix'\<lparr>i_spent := i_spent ix' + max 0 (sp - rc)\<rparr> else ix')"
    by (simp add: scan_tx_def sp rc)
  show ?thesis unfolding scan using o s assms(1,4) cb
    by (cases "is_coinbase_tx t"; cases "sp = 0") (auto simp: accounted_def max_def)
qed

lemma fold_scan_accounted:
  assumes "accounted ordinary seen ix" "\<forall>t \<in> set ts. tx_ok script t" "distinct (map tx_id ts)" "\<forall>t \<in> set ts. tx_id t \<notin> seen"
    "\<not> ordinary \<Longrightarrow> \<forall>t \<in> set ts. is_coinbase_tx t \<or> (\<forall>out \<in> set (tx_vout t). out_hex out \<noteq> Some script)"
  shows "accounted ordinary (tx_id ` set ts \<union> seen) (fold (scan_tx script height) ts ix)"
  using assms
proof (induction ts arbitrary: seen ix)
  case (Cons t ts)
  have "accounted ordinary (insert (tx_id t) seen) (scan_tx script height t ix)"
    using Cons.prems by (intro scan_tx_accounted) auto
  moreover have "\<forall>u \<in> set ts. tx_id u \<notin> insert (tx_id t) seen" using Cons.prems(3,4) by (auto simp: image_iff)
  ultimately show ?case using Cons.IH [of "insert (tx_id t) seen" "scan_tx script height t ix"] Cons.prems by simp
qed simp

definition chain_txs :: "node_rpc \<Rightarrow> jsstr list \<Rightarrow> tx list" where
  "chain_txs node hs = concat (map (\<lambda>h. case block_of node h of None \<Rightarrow> [] | Some b \<Rightarrow> block_tx b) hs)"

lemma scan_chain_accounted:
  assumes "accounted ordinary seen ix" "\<forall>t \<in> set (chain_txs node hs). tx_ok script t" "distinct (map tx_id (chain_txs node hs))"
    "\<forall>t \<in> set (chain_txs node hs). tx_id t \<notin> seen"
    "\<not> ordinary \<Longrightarrow> \<forall>t \<in> set (chain_txs node hs). is_coinbase_tx t \<or> (\<forall>out \<in> set (tx_vout t). out_hex out \<noteq> Some script)"
  shows "accounted ordinary (tx_id ` set (chain_txs node hs) \<union> seen) (scan_chain node script hs n ix)"
  using assms
proof (induction hs arbitrary: n seen ix)
  case (Cons h hs)
  show ?case
  proof (cases "block_of node h")
    case None
    then have "chain_txs node (h # hs) = chain_txs node hs" by (simp add: chain_txs_def)
    then show ?thesis using Cons None by simp
  next
    case (Some b)
    have txs: "chain_txs node (h # hs) = block_tx b @ chain_txs node hs" using Some by (simp add: chain_txs_def)
    have "accounted ordinary (tx_id ` set (block_tx b) \<union> seen) (fold (scan_tx script (n + 1)) (block_tx b) ix)"
      using Cons.prems unfolding txs by (intro fold_scan_accounted) auto
    then have "accounted ordinary (tx_id ` set (block_tx b) \<union> seen) (scan_block script (n + 1) h b ix)"
      by (simp add: accounted_def scan_block_def)
    moreover have "\<forall>t \<in> set (chain_txs node hs). tx_id t \<notin> tx_id ` set (block_tx b) \<union> seen"
      using Cons.prems(3,4) unfolding txs by (auto simp: image_iff)
    ultimately have "accounted ordinary (tx_id ` set (chain_txs node hs) \<union> (tx_id ` set (block_tx b) \<union> seen))
        (scan_chain node script hs (n + 1) (scan_block script (n + 1) h b ix))"
      using Cons.prems unfolding txs by (intro Cons.IH) auto
    then show ?thesis using Some unfolding txs by (simp add: image_Un Un_ac)
  qed
qed (simp add: chain_txs_def)

lemma filter_total:
  assumes "utxos_ok seen us"
  shows "0 \<le> sum_list (map (\<lambda>(_, x, _, _). x) (filter P us)) \<and> sum_list (map (\<lambda>(_, x, _, _). x) (filter P us)) \<le> utxo_total us"
proof -
  have "\<forall>(_, x, _, _) \<in> set us. 0 \<le> x" using assms by (auto simp: utxos_ok_def)
  then show ?thesis by (induction us) (auto simp: utxo_total_def)
qed

text \<open>
  C24. The books balance. On a chain whose transaction ids and output numbers do not repeat, whose amounts are
  not negative and whose coinbase inputs name no previous output, the index that a scan builds satisfies: the
  unlocked balance lies between zero and the current balance, and the rewards accrued never exceed current
  balance plus net spending; they are equal when no ordinary transaction pays the treasury, so that every
  coin counted as a reward is either still held or counted as spent, once.
\<close>

theorem treasury_books_balance:
  assumes "\<forall>t \<in> set (chain_txs node hs). tx_ok script t" "distinct (map tx_id (chain_txs node hs))"
  defines "ix \<equiv> scan_chain node script hs 0 reset_treasury_index"
  shows "0 \<le> unlocked_value height ix \<and> unlocked_value height ix \<le> current_value ix \<and> 0 \<le> i_spent ix \<and>
    i_rewards ix \<le> current_value ix + i_spent ix \<and>
    ((\<forall>t \<in> set (chain_txs node hs). is_coinbase_tx t \<or> (\<forall>out \<in> set (tx_vout t). out_hex out \<noteq> Some script)) \<longrightarrow>
      i_rewards ix = current_value ix + i_spent ix)"
proof -
  have start: "accounted b {} reset_treasury_index" for b
    by (simp add: accounted_def utxos_ok_def utxo_total_def reset_treasury_index_def)
  have t: "accounted True (tx_id ` set (chain_txs node hs) \<union> {}) ix"
    unfolding ix_def by (rule scan_chain_accounted [OF start]) (use assms(1,2) in auto)
  moreover have "accounted False (tx_id ` set (chain_txs node hs) \<union> {}) ix"
    if "\<forall>t \<in> set (chain_txs node hs). is_coinbase_tx t \<or> (\<forall>out \<in> set (tx_vout t). out_hex out \<noteq> Some script)"
    unfolding ix_def by (rule scan_chain_accounted [OF start]) (use assms(1,2) that in auto)
  moreover have "utxo_total (i_utxos ix) = current_value ix" by (simp add: utxo_total_def current_value_def)
  moreover have "0 \<le> unlocked_value height ix \<and> unlocked_value height ix \<le> utxo_total (i_utxos ix)"
    unfolding unlocked_value_def using t by (intro filter_total [of "tx_id ` set (chain_txs node hs)"]) (simp add: accounted_def)
  ultimately show ?thesis by (auto simp: accounted_def)
qed

theorem treasury_books_balance_witness:
  "i_rewards (scan_chain ex_node [1] [[9]] 0 reset_treasury_index) =
     current_value (scan_chain ex_node [1] [[9]] 0 reset_treasury_index) +
     i_spent (scan_chain ex_node [1] [[9]] 0 reset_treasury_index)"
proof -
  have t: "chain_txs ex_node [[9]] = [ex_reward]" by (simp add: chain_txs_def ex_node_def)
  have "tx_ok [1] ex_reward" "is_coinbase_tx ex_reward" by (simp_all add: tx_ok_def ex_reward_def ex_out_def is_coinbase_tx_def)
  then show ?thesis using treasury_books_balance [of ex_node "[[9]]" "[1]"] by (simp add: t)
qed

end
