(* ===== verification/Publishers.thy ===== *)
theory Publishers
  imports Treasury_Index Node_Status Treasury_Page
begin

text \<open>
  From the node to the website: the status payload of the collector (\<^verbatim>\<open>build_status\<close> of
  \<^verbatim>\<open>src/services/slithy-node-status-server.py\<close>), the filter of the snapshot exporter
  (\<^verbatim>\<open>src/services/export-node-snapshots.py\<close>) and the checks of the treasury publisher
  (\<^verbatim>\<open>src/services/fetch_beta_treasury_status.py\<close>). Clock values, in microseconds, and the answers of the
  node are arguments. The lemmas connect them with the scripts that display the published files.
\<close>

section \<open>Timestamps and decimals\<close>

datatype dec = DFin bool rat | DSpecial

text \<open>
  The parts of the Python library that the published values do not reach: timestamps outside the
  form the collector writes, numerals outside plain decimals, and the text of values that are
  neither strings nor integers.
\<close>

record py_env =
  iso_other :: "nat list \<Rightarrow> (int \<times> bool) option"
  decimal_other :: "nat list \<Rightarrow> dec option"
  py_str_other :: "pyval \<Rightarrow> nat list"

text \<open>\<^verbatim>\<open>datetime.fromisoformat(s.replace("Z", "+00:00"))\<close>: microseconds, and whether there is a time zone.\<close>

definition fromisoformat :: "py_env \<Rightarrow> nat list \<Rightarrow> (int \<times> bool) option" where
  "fromisoformat env s =
     (if length s = 20 \<and> take 4 s \<noteq> lit ''0000'' \<and> take 2 (drop 11 s) \<noteq> lit ''24'' \<and> iso_utc s \<noteq> None
      then map_option (\<lambda>t. (t * 1000, True)) (iso_utc s) else iso_other env s)"

definition plain_decimal :: "nat list \<Rightarrow> bool" where
  "plain_decimal s \<longleftrightarrow> takeWhile is_digit s \<noteq> [] \<and>
     (case dropWhile is_digit s of [] \<Rightarrow> True | c # f \<Rightarrow> c = 46 \<and> list_all is_digit f)"

definition Decimal :: "py_env \<Rightarrow> nat list \<Rightarrow> dec option" where
  "Decimal env s =
     (if plain_decimal s then Some (DFin False (decimal (takeWhile is_digit s) (tl (dropWhile is_digit s)) 0))
      else decimal_other env s)"

fun py_str :: "py_env \<Rightarrow> pyval \<Rightarrow> nat list" where
  "py_str env (PStr s) = s"
| "py_str env (PInt n) = (if n < 0 then [45] else []) @ digits (nat \<bar>n\<bar>)"
| "py_str env v = py_str_other env v"

definition dec_format :: "bool \<Rightarrow> rat \<Rightarrow> jsstr" where
  "dec_format neg q = (if neg then [45] else []) @ fmt8 q"

text \<open>Addition in the default context of 28 digits, for values with eight decimals.\<close>

definition dec_add :: "rat \<Rightarrow> rat \<Rightarrow> rat" where
  "dec_add x y = (let z = x + y in if z * 10 ^ 8 < 10 ^ 28 then z else of_int (round_half_even (z * 10 ^ 7)) / 10 ^ 7)"

section \<open>The snapshot exporter\<close>

type_synonym pydict = "(nat list \<times> pyval) list"

text \<open>One of the loops over field names: each present field is checked and copied.\<close>

fun copy_fields :: "(pyval \<Rightarrow> unit py) \<Rightarrow> string list \<Rightarrow> pydict \<Rightarrow> pydict py" where
  "copy_fields check [] d = Inr []"
| "copy_fields check (name # names) d =
     (case pget d name of None \<Rightarrow> copy_fields check names d
      | Some v \<Rightarrow> rbind (check v) (\<lambda>_. rbind (copy_fields check names d) (\<lambda>rest. Inr ((lit name, v) # rest))))"

definition require :: "bool \<Rightarrow> unit py" where
  "require b = (if b then Inr () else Inl PyValueError)"

definition check_text :: "nat \<Rightarrow> pyval \<Rightarrow> unit py" where
  "check_text n v = require (case v of PStr s \<Rightarrow> length s \<le> n | _ \<Rightarrow> False)"

definition check_count :: "pyval \<Rightarrow> unit py" where
  "check_count v = require (case v of PInt n \<Rightarrow> 0 \<le> n | _ \<Rightarrow> False)"

definition check_bool :: "pyval \<Rightarrow> unit py" where
  "check_bool v = require (case v of PBool _ \<Rightarrow> True | _ \<Rightarrow> False)"

definition check_active :: "pyval \<Rightarrow> unit py" where
  "check_active v = require (case v of PBool _ \<Rightarrow> True | PNone \<Rightarrow> True | _ \<Rightarrow> False)"

definition check_difficulty :: "pyval \<Rightarrow> unit py" where
  "check_difficulty v =
     (case v of
        PInt n \<Rightarrow> if num_finite (round_double (of_int n)) then require (0 \<le> n) else Inl PyOverflowError
      | PFloat x \<Rightarrow> require (num_finite x \<and> \<not> num_lt x (Fin 0))
      | _ \<Rightarrow> Inl PyValueError)"

definition public_texts :: "string list" where
  "public_texts = [''network'', ''region'', ''chain'', ''version'', ''treasuryAddress'', ''accruedRewards'',
     ''currentBalance'', ''unlockedBalance'', ''immatureBalance'', ''totalSpent'']"

definition public_counts :: "string list" where
  "public_counts = [''height'', ''chainHeight'', ''headers'', ''peerCount'', ''p2pPort'']"

definition public_states :: "string list" where
  "public_states = [''initialBlockDownload'', ''rpcPublic'']"

definition clean_mining :: "pyval \<Rightarrow> pyval py" where
  "clean_mining v =
     (case v of
        PDict m \<Rightarrow>
          rbind (copy_fields check_count [''threads'', ''speed''] m) (\<lambda>a.
          rbind (copy_fields check_active [''active''] m) (\<lambda>b.
          rbind (copy_fields (check_text 64) [''algorithm''] m) (\<lambda>c. Inr (PDict (a @ b @ c)))))
      | _ \<Rightarrow> Inl PyValueError)"

definition stamp_age :: "py_env \<Rightarrow> int \<Rightarrow> pyval \<Rightarrow> int py" where
  "stamp_age env now v =
     (case v of
        PStr s \<Rightarrow> (case fromisoformat env s of None \<Rightarrow> Inl PyValueError
                  | Some (t, aware) \<Rightarrow> if aware then Inr (now - t) else Inl PyValueError)
      | _ \<Rightarrow> Inl PyAttributeError)"

definition hex64 :: "pyval \<Rightarrow> bool" where
  "hex64 v = (case v of PStr s \<Rightarrow> re_test hash_re s | _ \<Rightarrow> False)"

definition public_snapshot :: "py_env \<Rightarrow> int \<Rightarrow> pyval \<Rightarrow> string \<Rightarrow> pydict py" where
  "public_snapshot env now snapshot name =
     (case snapshot of
        PDict d \<Rightarrow>
          rbind (case pget d ''updatedAt'' of None \<Rightarrow> Inl PyKeyError | Some u \<Rightarrow> Inr u) (\<lambda>u.
          rbind (stamp_age env now u) (\<lambda>age.
          rbind (require (- 120000000 \<le> age \<and> age \<le> 120000000)) (\<lambda>_.
          rbind (case pget d ''bestBlockHash'' of None \<Rightarrow> Inl PyValueError
                 | Some h \<Rightarrow> if hex64 h then Inr h else Inl PyValueError) (\<lambda>h.
          rbind (copy_fields (check_text 256) public_texts d) (\<lambda>texts.
          rbind (copy_fields check_count public_counts d) (\<lambda>counts.
          rbind (copy_fields check_bool public_states d) (\<lambda>states.
          rbind (copy_fields check_difficulty [''difficulty''] d) (\<lambda>difficulty.
          rbind (case pget d ''mining'' of None \<Rightarrow> Inr []
                 | Some m \<Rightarrow> rbind (clean_mining m) (\<lambda>c. Inr [(lit ''mining'', c)])) (\<lambda>mining.
          Inr ([(lit ''node'', PStr (lit name)), (lit ''updatedAt'', u), (lit ''bestBlockHash'', h)] @
               texts @ counts @ states @ difficulty @ mining))))))))))
      | _ \<Rightarrow> Inl PyValueError)"

section \<open>The treasury publisher\<close>

definition amount_keys :: "string list" where
  "amount_keys = [''currentBalance'', ''unlockedBalance'', ''immatureBalance'', ''accruedRewards'', ''totalSpent'']"

text \<open>One amount: finite, not negative, and a multiple of the smallest unit within 28 digits.\<close>

definition read_amount :: "py_env \<Rightarrow> pydict \<Rightarrow> string \<Rightarrow> (bool \<times> rat) py" where
  "read_amount env d key =
     (case pget d key of None \<Rightarrow> Inl PyValueError
      | Some v \<Rightarrow>
          (case Decimal env (py_str env v) of
             Some (DFin neg q) \<Rightarrow>
               if neg \<and> q \<noteq> 0 \<or> q * 10 ^ 8 \<ge> 10 ^ 28 \<or> q * 10 ^ 8 \<noteq> of_int \<lfloor>q * 10 ^ 8\<rfloor>
               then Inl PyValueError else Inr (neg, q)
           | _ \<Rightarrow> Inl PyValueError))"

fun read_amounts :: "py_env \<Rightarrow> pydict \<Rightarrow> string list \<Rightarrow> (string \<times> bool \<times> rat) list py" where
  "read_amounts env d [] = Inr []"
| "read_amounts env d (key # keys) =
     rbind (read_amount env d key) (\<lambda>a. rbind (read_amounts env d keys) (\<lambda>rest. Inr ((key, a) # rest)))"

definition amount_of :: "(string \<times> bool \<times> rat) list \<Rightarrow> string \<Rightarrow> rat" where
  "amount_of amounts key = (case map_of amounts key of None \<Rightarrow> 0 | Some (neg, q) \<Rightarrow> q)"

definition expected_chain :: "nat list \<Rightarrow> nat list option" where
  "expected_chain network = map_of [(lit ''slithy-testnet'', lit ''test''), (lit ''slithy-mainnet'', lit ''main''),
     (lit ''regtest'', lit ''regtest'')] network"

definition validate_treasury :: "py_env \<Rightarrow> int \<Rightarrow> pyval \<Rightarrow> nat list \<Rightarrow> nat list \<Rightarrow> pydict py" where
  "validate_treasury env now snap network addr =
     (case snap of
        PDict d \<Rightarrow>
          rbind (require (pget d ''network'' = Some (PStr network) \<and> pget d ''treasuryAddress'' = Some (PStr addr))) (\<lambda>_.
          rbind (case expected_chain network of None \<Rightarrow> Inl PyValueError
                 | Some c \<Rightarrow> if pget d ''chain'' = Some (PStr c) then Inr c else Inl PyValueError) (\<lambda>chain.
          rbind (case pget d ''bestBlockHash'' of None \<Rightarrow> Inl PyValueError
                 | Some h \<Rightarrow> if hex64 h then Inr h else Inl PyValueError) (\<lambda>h.
          rbind (case pget d ''chainHeight'' of Some (PInt n) \<Rightarrow> if n < 0 then Inl PyValueError else Inr n
                 | _ \<Rightarrow> Inl PyValueError) (\<lambda>height.
          rbind (case pget d ''updatedAt'' of None \<Rightarrow> Inl PyKeyError | Some u \<Rightarrow> Inr u) (\<lambda>u.
          rbind (stamp_age env now u) (\<lambda>age.
          rbind (require (- 120000000 \<le> age \<and> age \<le> 120000000)) (\<lambda>_.
          rbind (read_amounts env d amount_keys) (\<lambda>amounts.
          rbind (require (amount_of amounts ''currentBalance'' =
                   dec_add (amount_of amounts ''unlockedBalance'') (amount_of amounts ''immatureBalance''))) (\<lambda>_.
          Inr ([(lit ''network'', PStr network), (lit ''chain'', PStr chain), (lit ''bestBlockHash'', h),
                (lit ''treasuryAddress'', PStr addr), (lit ''chainHeight'', PInt height), (lit ''updatedAt'', u)] @
               map (\<lambda>(key, neg, q). (lit key, PStr (dec_format neg q))) amounts))))))))))
      | _ \<Rightarrow> Inl PyValueError)"

section \<open>The collector's payload\<close>

record chain_info =
  ci_chain :: "nat list"
  ci_blocks :: nat
  ci_headers :: nat
  ci_bestblockhash :: "nat list"
  ci_difficulty :: pyval
  ci_initialblockdownload :: bool

record mining_info =
  mi_active :: pyval
  mi_threads :: nat
  mi_speed :: nat
  mi_algorithm :: "nat list"

record service_config =
  NODE_NAME :: "nat list"
  NODE_REGION :: "nat list"
  TREASURY_SCRIPT :: jsstr
  TREASURY_ADDRESS :: jsstr

definition network_name :: "nat list \<Rightarrow> nat list" where
  "network_name chain = (case map_of [(lit ''test'', lit ''slithy-testnet''), (lit ''main'', lit ''slithy-mainnet''),
     (lit ''regtest'', lit ''regtest'')] chain of None \<Rightarrow> lit ''unknown'' | Some n \<Rightarrow> n)"

text \<open>A dictionary with plain keys.\<close>

definition dict :: "(string \<times> pyval) list \<Rightarrow> pydict" where
  "dict ps = map (apfst lit) ps"

definition report_fields :: "treasury_report \<Rightarrow> pydict" where
  "report_fields r = dict [(''treasuryAddress'', PStr (treasuryAddress r)), (''accruedRewards'', PStr (accruedRewards r)),
     (''currentBalance'', PStr (currentBalance r)), (''unlockedBalance'', PStr (unlockedBalance r)),
     (''immatureBalance'', PStr (immatureBalance r)), (''totalSpent'', PStr (totalSpent r))]"

definition strip_slashes :: "nat list \<Rightarrow> nat list" where
  "strip_slashes s = rev (dropWhile ((=) 47) (rev (dropWhile ((=) 47) s)))"

definition status_payload :: "service_config \<Rightarrow> chain_info \<Rightarrow> nat \<Rightarrow> nat list \<Rightarrow> mining_info \<Rightarrow> nat list \<Rightarrow> pydict" where
  "status_payload cfg chain peers subversion mining updated = dict
     [(''network'', PStr (network_name (ci_chain chain))), (''node'', PStr (NODE_NAME cfg)), (''region'', PStr (NODE_REGION cfg)),
      (''chain'', PStr (ci_chain chain)), (''height'', PInt (int (ci_blocks chain))), (''chainHeight'', PInt (int (ci_blocks chain))),
      (''headers'', PInt (int (ci_headers chain))), (''bestBlockHash'', PStr (ci_bestblockhash chain)),
      (''difficulty'', ci_difficulty chain), (''initialBlockDownload'', PBool (ci_initialblockdownload chain)),
      (''peerCount'', PInt (int peers)), (''version'', PStr (strip_slashes subversion)), (''p2pPort'', PInt 53424),
      (''rpcPublic'', PBool False),
      (''mining'', PDict (dict [(''active'', case mi_active mining of PBool b \<Rightarrow> PBool b | _ \<Rightarrow> PNone),
         (''threads'', PInt (int (mi_threads mining))), (''speed'', PInt (int (mi_speed mining))),
         (''algorithm'', PStr (mi_algorithm mining))])),
      (''updatedAt'', PStr updated)]"

text \<open>
  \<^verbatim>\<open>build_status\<close> after its queries: the chain, the peers, the version and the mining state are given,
  \<open>updated\<close> is the formatted clock, and call numbers start at \<open>k\<close>. The result is the new index and the
  payload, with the treasury's fields when there is a report.
\<close>

definition build_status :: "node_rpc \<Rightarrow> service_config \<Rightarrow> chain_info \<Rightarrow> nat \<Rightarrow> nat list \<Rightarrow> mining_info \<Rightarrow>
    nat list \<Rightarrow> treasury_index \<Rightarrow> nat \<Rightarrow> treasury_index \<times> pydict py" where
  "build_status node cfg chain peers subversion mining updated ix k =
     (let height = ci_blocks chain;
          payload = status_payload cfg chain peers subversion mining updated in
      case treasury_status node (TREASURY_SCRIPT cfg) (TREASURY_ADDRESS cfg) height ix k of
        (ix', k', Inl e) \<Rightarrow> (ix', Inl e)
      | (ix', k', Inr treasury) \<Rightarrow>
          (ix', rbind (getblockhash node k' height) (\<lambda>h.
             if h \<noteq> ci_bestblockhash chain then Inl PyRuntimeError
             else Inr (payload @ (case treasury of None \<Rightarrow> [] | Some r \<Rightarrow> report_fields r)))))"

section \<open>What is published\<close>

lemma copy_fields_get:
  assumes "copy_fields check names d = Inr r"
  shows "pget r k = (if k \<in> set names then pget d k else None)"
    and "\<And>x v. (x, v) \<in> set r \<Longrightarrow> \<exists>n \<in> set names. x = lit n \<and> pget d n = Some v \<and> check v = Inr ()"
proof -
  have "pget r k = (if k \<in> set names then pget d k else None) \<and>
      (\<forall>x v. (x, v) \<in> set r \<longrightarrow> (\<exists>n \<in> set names. x = lit n \<and> pget d n = Some v \<and> check v = Inr ()))"
    using assms
  proof (induction names arbitrary: r)
    case (Cons n names)
    show ?case
    proof (cases "pget d n")
      case None
      then show ?thesis using Cons by auto
    next
      case (Some v)
      then obtain u rest where "check v = Inr u" "copy_fields check names d = Inr rest" "r = (lit n, v) # rest"
        using Cons.prems by (auto simp: rbind_Inr_iff)
      then show ?thesis using Cons.IH [of rest] Some by (auto simp: pget_def lit_inj)
    qed
  qed (simp add: pget_def)
  then show "pget r k = (if k \<in> set names then pget d k else None)"
    "\<And>x v. (x, v) \<in> set r \<Longrightarrow> \<exists>n \<in> set names. x = lit n \<and> pget d n = Some v \<and> check v = Inr ()" by blast+
qed

lemma hex64_shape: "hex64 v \<longleftrightarrow> (\<exists>s. v = PStr s \<and> length s = 64 \<and> list_all is_hex s)"
  unfolding hex64_def re_test_lang hash_re_def lang_re_rep_class by (cases v) simp_all

lemma hex64_plain:
  assumes "hex64 v"
  shows "\<exists>s. v = PStr s \<and> s \<noteq> [] \<and> utf16 s = s \<and> re_test hash_re s"
proof -
  obtain s where s: "v = PStr s" "length s = 64" "list_all is_hex s" using assms unfolding hex64_shape by blast
  then have "\<forall>c \<in> set s. c < 65536" by (auto simp: list_all_iff is_hex_def is_digit_def)
  then show ?thesis using assms s utf16_ascii by (auto simp: hex64_def)
qed

lemma pget_append: "pget (a @ b) k = (case pget a k of None \<Rightarrow> pget b k | Some v \<Rightarrow> Some v)"
  by (simp add: pget_def map_add_def split: option.split)

lemma pget_Cons: "pget ((lit n, v) # d) k = (if k = n then Some v else pget d k)"
  by (simp add: pget_def lit_inj)

lemma pget_Nil [simp]: "pget [] k = None"
  by (simp add: pget_def)

lemma pget_dict [simp]: "pget (dict ps) k = map_of ps k"
  by (induction ps) (auto simp: dict_def pget_def lit_inj)

lemma dict_keys: "\<forall>(k, v) \<in> set (dict ps). \<exists>s. k = lit s"
  by (auto simp: dict_def)

lemma public_snapshotE:
  assumes "public_snapshot env now snap name = Inr r"
  obtains d u age h texts counts states difficulty mining where "snap = PDict d"
    "pget d ''updatedAt'' = Some u" "stamp_age env now u = Inr age" "- 120000000 \<le> age" "age \<le> 120000000"
    "pget d ''bestBlockHash'' = Some h" "hex64 h"
    "copy_fields (check_text 256) public_texts d = Inr texts" "copy_fields check_count public_counts d = Inr counts"
    "copy_fields check_bool public_states d = Inr states" "copy_fields check_difficulty [''difficulty''] d = Inr difficulty"
    "(case pget d ''mining'' of None \<Rightarrow> Inr [] | Some m \<Rightarrow> rbind (clean_mining m) (\<lambda>c. Inr [(lit ''mining'', c)])) = Inr mining"
    "r = [(lit ''node'', PStr (lit name)), (lit ''updatedAt'', u), (lit ''bestBlockHash'', h)] @
       texts @ counts @ states @ difficulty @ mining"
proof (cases snap)
  case (PDict d)
  from assms [unfolded public_snapshot_def PDict pyval.case]
  obtain u age x h texts counts states difficulty mining where
    "(case pget d ''updatedAt'' of None \<Rightarrow> Inl PyKeyError | Some u \<Rightarrow> Inr u) = Inr u" "stamp_age env now u = Inr age"
    "require (- 120000000 \<le> age \<and> age \<le> 120000000) = Inr x"
    "(case pget d ''bestBlockHash'' of None \<Rightarrow> Inl PyValueError | Some h \<Rightarrow> if hex64 h then Inr h else Inl PyValueError) = Inr h"
    "copy_fields (check_text 256) public_texts d = Inr texts" "copy_fields check_count public_counts d = Inr counts"
    "copy_fields check_bool public_states d = Inr states" "copy_fields check_difficulty [''difficulty''] d = Inr difficulty"
    "(case pget d ''mining'' of None \<Rightarrow> Inr [] | Some m \<Rightarrow> rbind (clean_mining m) (\<lambda>c. Inr [(lit ''mining'', c)])) = Inr mining"
    "r = [(lit ''node'', PStr (lit name)), (lit ''updatedAt'', u), (lit ''bestBlockHash'', h)] @
       texts @ counts @ states @ difficulty @ mining"
    unfolding rbind_Inr_iff by blast
  then show ?thesis using that PDict
    by (cases "pget d ''updatedAt''"; cases "pget d ''bestBlockHash''") (simp_all add: require_def split: if_splits)
qed (use assms in \<open>simp_all add: public_snapshot_def\<close>)

definition public_fields :: "string list" where
  "public_fields = [''updatedAt'', ''bestBlockHash'', ''difficulty''] @ public_texts @ public_counts @ public_states"

definition public_mining :: "string list" where
  "public_mining = [''threads'', ''speed'', ''active'', ''algorithm'']"

definition public_entry :: "string \<Rightarrow> pydict \<Rightarrow> nat list \<Rightarrow> pyval \<Rightarrow> bool" where
  "public_entry name d x v \<longleftrightarrow> x = lit ''node'' \<and> v = PStr (lit name) \<or>
     (\<exists>n \<in> set public_fields. x = lit n \<and> pget d n = Some v) \<or>
     (\<exists>m c. x = lit ''mining'' \<and> v = PDict c \<and> pget d ''mining'' = Some (PDict m) \<and>
        (\<forall>(y, w) \<in> set c. \<exists>n \<in> set public_mining. y = lit n \<and> pget m n = Some w))"

lemma clean_miningD:
  assumes "clean_mining v = Inr w"
  shows "\<exists>m c. v = PDict m \<and> w = PDict c \<and> (\<forall>(x, y) \<in> set c. \<exists>n \<in> set public_mining. x = lit n \<and> pget m n = Some y)"
proof (cases v)
  case (PDict m)
  from assms [unfolded clean_mining_def PDict pyval.case rbind_Inr_iff] obtain a b c
    where f: "copy_fields check_count [''threads'', ''speed''] m = Inr a" "copy_fields check_active [''active''] m = Inr b"
      "copy_fields (check_text 64) [''algorithm''] m = Inr c" and w: "w = PDict (a @ b @ c)" by blast
  have "\<exists>n \<in> set public_mining. x = lit n \<and> pget m n = Some y" if "(x, y) \<in> set (a @ b @ c)" for x y
    using that copy_fields_get(2) [OF f(1)] copy_fields_get(2) [OF f(2)] copy_fields_get(2) [OF f(3)]
    by (fastforce simp: public_mining_def)
  then show ?thesis using PDict w by blast
qed (use assms in \<open>simp_all add: clean_mining_def\<close>)

lemma public_snapshot_entries:
  assumes "public_snapshot env now snap name = Inr r"
  obtains d where "snap = PDict d" "\<And>x v. (x, v) \<in> set r \<Longrightarrow> public_entry name d x v"
proof -
  obtain d u age h texts counts states difficulty mining where s: "snap = PDict d" "pget d ''updatedAt'' = Some u"
      "stamp_age env now u = Inr age" "- 120000000 \<le> age" "age \<le> 120000000" "pget d ''bestBlockHash'' = Some h"
    and c: "copy_fields (check_text 256) public_texts d = Inr texts" "copy_fields check_count public_counts d = Inr counts"
      "copy_fields check_bool public_states d = Inr states" "copy_fields check_difficulty [''difficulty''] d = Inr difficulty"
    and m: "(case pget d ''mining'' of None \<Rightarrow> Inr [] | Some m \<Rightarrow> rbind (clean_mining m) (\<lambda>c. Inr [(lit ''mining'', c)])) = Inr mining"
    and r: "r = [(lit ''node'', PStr (lit name)), (lit ''updatedAt'', u), (lit ''bestBlockHash'', h)] @
       texts @ counts @ states @ difficulty @ mining" by (rule public_snapshotE [OF assms])
  have copied: "\<exists>n \<in> set public_fields. x = lit n \<and> pget d n = Some v" if "(x, v) \<in> set (texts @ counts @ states @ difficulty)" for x v
    using that copy_fields_get(2) [OF c(1)] copy_fields_get(2) [OF c(2)] copy_fields_get(2) [OF c(3)] copy_fields_get(2) [OF c(4)]
    unfolding public_fields_def by fastforce
  have mined: "\<exists>m c. x = lit ''mining'' \<and> v = PDict c \<and> pget d ''mining'' = Some (PDict m) \<and>
      (\<forall>(y, w) \<in> set c. \<exists>n \<in> set public_mining. y = lit n \<and> pget m n = Some w)" if "(x, v) \<in> set mining" for x v
  proof (cases "pget d ''mining''")
    case None
    then show ?thesis using m that by simp
  next
    case (Some w)
    then obtain w' where w': "clean_mining w = Inr w'" "mining = [(lit ''mining'', w')]" using m by (auto simp: rbind_Inr_iff)
    then show ?thesis using clean_miningD [OF w'(1)] Some that by auto
  qed
  have "public_entry name d x v" if "(x, v) \<in> set r" for x v
  proof -
    consider "(x, v) = (lit ''node'', PStr (lit name))" | "(x, v) = (lit ''updatedAt'', u)" | "(x, v) = (lit ''bestBlockHash'', h)"
      | "(x, v) \<in> set (texts @ counts @ states @ difficulty)" | "(x, v) \<in> set mining" using \<open>(x, v) \<in> set r\<close> unfolding r by auto
    then show ?thesis
    proof cases
      case 2
      then show ?thesis using s(2) by (auto simp: public_fields_def public_entry_def)
    next
      case 3
      then show ?thesis using s(6) by (auto simp: public_fields_def public_entry_def)
    next
      case 4
      then show ?thesis using copied unfolding public_entry_def by blast
    next
      case 5
      then show ?thesis using mined unfolding public_entry_def by blast
    qed (simp add: public_entry_def)
  qed
  then show ?thesis using s(1) that by blast
qed

text \<open>
  C17. The exporter publishes nothing but its public schema. Every entry of a published snapshot is the node's
  name, or one of the listed fields with the value the collector gave it, or the mining state reduced to its
  four listed fields; whatever else the collector's answer contains stays private. The snapshot's stamp is
  within two minutes of the exporter's clock.
\<close>

theorem exporter_publishes_only_the_schema:
  assumes "public_snapshot env now snap name = Inr r"
  shows "\<exists>d u age. snap = PDict d \<and> pget d ''updatedAt'' = Some u \<and> stamp_age env now u = Inr age \<and> \<bar>age\<bar> \<le> 120000000 \<and>
    (\<forall>x v. (x, v) \<in> set r \<longrightarrow> public_entry name d x v)"
proof -
  obtain d where d: "snap = PDict d" "\<And>x v. (x, v) \<in> set r \<Longrightarrow> public_entry name d x v"
    by (rule public_snapshot_entries [OF assms]) blast
  moreover obtain d' u age where "snap = PDict d'" "pget d' ''updatedAt'' = Some u" "stamp_age env now u = Inr age"
    "- 120000000 \<le> age" "age \<le> 120000000" by (rule public_snapshotE [OF assms]) blast
  ultimately show ?thesis by (auto simp: abs_le_iff)
qed

definition ex_private :: pydict where
  "ex_private = [(lit ''updatedAt'', PStr (lit ''2026-09-09T00:00:00Z'')), (lit ''bestBlockHash'', PStr (replicate 64 48)),
     (lit ''height'', PInt 5), (lit ''walletPath'', PStr (lit ''/var/lib/wallet'')),
     (lit ''mining'', PDict [(lit ''threads'', PInt 2), (lit ''payout'', PStr (lit ''address''))])]"

lemma ex_private_published:
  "public_snapshot env 1788912000000000 (PDict ex_private) ''mome'' =
     Inr [(lit ''node'', PStr (lit ''mome'')), (lit ''updatedAt'', PStr (lit ''2026-09-09T00:00:00Z'')),
       (lit ''bestBlockHash'', PStr (replicate 64 48)), (lit ''height'', PInt 5), (lit ''mining'', PDict [(lit ''threads'', PInt 2)])]"
proof -
  have g: "pget ex_private ''updatedAt'' = Some (PStr (lit ''2026-09-09T00:00:00Z''))"
    "pget ex_private ''bestBlockHash'' = Some (PStr (replicate 64 48))" "pget ex_private ''height'' = Some (PInt 5)"
    "pget ex_private ''mining'' = Some (PDict [(lit ''threads'', PInt 2), (lit ''payout'', PStr (lit ''address''))])"
    by (simp_all add: ex_private_def pget_def lit_inj)
  have n: "pget ex_private k = None" if "k \<notin> set [''updatedAt'', ''bestBlockHash'', ''height'', ''walletPath'', ''mining'']" for k
    using that by (simp add: ex_private_def pget_def lit_inj)
  have s: "stamp_age env 1788912000000000 (PStr (lit ''2026-09-09T00:00:00Z'')) = Inr 0"
    using ex_stamp by (simp add: stamp_age_def fromisoformat_def) (simp add: lit_def)
  have h: "hex64 (PStr (replicate 64 48))"
    by (simp add: hex64_shape list_all_iff is_hex_def is_digit_def)
  have m: "clean_mining (PDict [(lit ''threads'', PInt 2), (lit ''payout'', PStr (lit ''address''))]) = Inr (PDict [(lit ''threads'', PInt 2)])"
    by (simp add: clean_mining_def pget_def lit_inj check_count_def require_def)
  show ?thesis
    by (simp add: public_snapshot_def g n s h m require_def public_texts_def public_counts_def public_states_def check_count_def)
qed

theorem exporter_publishes_only_the_schema_witness:
  "\<exists>r d. public_snapshot \<lparr>iso_other = \<lambda>_. None, decimal_other = \<lambda>_. None, py_str_other = \<lambda>_. []\<rparr> 1788912000000000
       (PDict ex_private) ''mome'' = Inr r \<and> PDict ex_private = PDict d \<and> (\<forall>x v. (x, v) \<in> set r \<longrightarrow> public_entry ''mome'' d x v) \<and>
     pget ex_private ''walletPath'' \<noteq> None \<and> pget r ''walletPath'' = None"
proof -
  note p = ex_private_published [of "\<lparr>iso_other = \<lambda>_. None, decimal_other = \<lambda>_. None, py_str_other = \<lambda>_. []\<rparr>"]
  show ?thesis using exporter_publishes_only_the_schema [OF p] p by (auto simp: pget_def lit_inj ex_private_def)
qed

end
