(* ===== verification/Publication.thy ===== *)
theory Publication
  imports Publishers
begin

text \<open>
  From the node to the page: what the collector of a node reports, the exporter and the treasury
  publisher pass on, and the website's scripts show. The file that one stage writes with
  \<^verbatim>\<open>json.dump\<close> is what the next one reads: a Python stage reads the same value, a script reads \<^const>\<open>to_js\<close>
  of it.
\<close>

section \<open>Amounts\<close>

lemma dec_val_snoc: "dec_val (ds @ [c]) = 10 * dec_val ds + (c - 48)"
  by (simp add: dec_val_def)

lemma dec_val_append: "dec_val (a @ b) = dec_val a * 10 ^ length b + dec_val b"
proof (induction b rule: rev_induct)
  case (snoc c b)
  then show ?case by (simp add: dec_val_snoc algebra_simps flip: append_assoc)
qed (simp add: dec_val_def)

lemma dec_val_digits: "dec_val (digits n) = n"
proof (induction n rule: digits.induct)
  case (1 n)
  then show ?case by (subst digits.simps) (simp add: dec_val_snoc dec_val_def)
qed

lemma dec_val_pad: "dec_val (pad k n) = n mod 10 ^ k"
proof (induction k arbitrary: n)
  case (Suc k)
  then show ?case by (simp add: dec_val_snoc mod_mult2_eq)
qed (simp add: dec_val_def)

lemma decimal_digits_pad:
  "decimal (digits (n div 10 ^ k)) (pad k (n mod 10 ^ k)) 0 = of_nat n / 10 ^ k"
proof -
  have "(of_nat (n div 10 ^ k) :: rat) * 10 ^ k + of_nat (n mod 10 ^ k) = of_nat n"
    using arg_cong [OF div_mult_mod_eq [of n "10 ^ k"], of "of_nat :: nat \<Rightarrow> rat"]
    by (simp only: of_nat_add of_nat_mult of_nat_power of_nat_numeral)
  then show ?thesis by (simp add: decimal_def dec_val_append dec_val_digits dec_val_pad power_int_minus divide_inverse)
qed

lemma digits_nonempty: "digits n \<noteq> []"
  by (subst digits.simps) simp

lemma Decimal_parts:
  assumes "list_all is_digit i" "i \<noteq> []" "list_all is_digit f"
  shows "Decimal env (i @ 46 # f) = Some (DFin False (decimal i f 0))"
proof -
  have "takeWhile is_digit (i @ 46 # f) = i" "dropWhile is_digit (i @ 46 # f) = 46 # f"
    using assms(1) by (simp_all add: takeWhile_append dropWhile_append list_all_iff is_digit_def)
  then show ?thesis using assms by (simp add: Decimal_def plain_decimal_def)
qed

lemma round_half_even_of_int: "round_half_even (of_int m) = m"
  by (simp add: round_half_even_def Let_def)

lemma fmt8_nonneg:
  assumes "0 \<le> q" "round_half_even (q * 10 ^ 8) = m"
  shows "fmt8 q = digits (nat m div 10 ^ 8) @ 46 # pad 8 (nat m mod 10 ^ 8)"
proof -
  have "\<bar>q\<bar> = q" "\<not> q < 0" using assms(1) by simp_all
  then show ?thesis unfolding fmt8_def Let_def by (simp only: assms(2) if_False append_Nil)
qed

section \<open>What each stage passes on\<close>

lemma public_snapshot_get:
  assumes "public_snapshot env now (PDict d) name = Inr r" "k \<in> set public_fields"
  shows "pget r k = pget d k"
proof -
  obtain d' u age h texts counts states difficulty mining where s: "PDict d = PDict d'" "pget d' ''updatedAt'' = Some u"
      "pget d' ''bestBlockHash'' = Some h"
    and c: "copy_fields (check_text 256) public_texts d' = Inr texts" "copy_fields check_count public_counts d' = Inr counts"
      "copy_fields check_bool public_states d' = Inr states" "copy_fields check_difficulty [''difficulty''] d' = Inr difficulty"
    and m: "(case pget d' ''mining'' of None \<Rightarrow> Inr [] | Some m \<Rightarrow> rbind (clean_mining m) (\<lambda>c. Inr [(lit ''mining'', c)])) = Inr mining"
    and r: "r = [(lit ''node'', PStr (lit name)), (lit ''updatedAt'', u), (lit ''bestBlockHash'', h)] @
       texts @ counts @ states @ difficulty @ mining" by (rule public_snapshotE [OF assms(1)])
  note g = copy_fields_get(1) [OF c(1), of k] copy_fields_get(1) [OF c(2), of k] copy_fields_get(1) [OF c(3), of k]
    copy_fields_get(1) [OF c(4), of k]
  have ne: "k \<noteq> ''node''" "k \<noteq> ''mining''"
    using assms(2) by (auto simp: public_fields_def public_texts_def public_counts_def public_states_def)
  have d: "d' = d" using s(1) by simp
  have mem: "k = ''updatedAt'' \<or> k = ''bestBlockHash'' \<or> k \<in> set public_texts \<or> k \<in> set public_counts \<or> k \<in> set public_states \<or>
      k \<in> set [''difficulty'']" using assms(2) unfolding public_fields_def by auto
  have none: "pget mining k = None" using m ne(2) by (auto simp: pget_Cons rbind_Inr_iff split: option.splits)
  show ?thesis
  proof (cases "k = ''updatedAt'' \<or> k = ''bestBlockHash''")
    case True
    then show ?thesis using s ne unfolding r by (auto simp: pget_Cons)
  next
    case False
    then have "pget r k = pget (texts @ counts @ states @ difficulty @ mining) k" using ne unfolding r by (simp add: pget_Cons)
    moreover have "k \<in> set public_texts \<or> k \<in> set public_counts \<or> k \<in> set public_states \<or> k \<in> set [''difficulty'']"
      using mem False by blast
    ultimately show ?thesis unfolding pget_append g none d by (cases "pget d k") (auto split: if_splits)
  qed
qed

lemma public_snapshot_keys:
  assumes "public_snapshot env now snap name = Inr r"
  shows "\<forall>(k, v) \<in> set r. \<exists>s. k = lit s"
proof -
  obtain d where "snap = PDict d" "\<And>x v. (x, v) \<in> set r \<Longrightarrow> public_entry name d x v"
    by (rule public_snapshot_entries [OF assms]) blast
  then show ?thesis by (auto simp: public_entry_def)
qed

lemma build_statusE:
  assumes "build_status node cfg chain peers subversion mining updated ix k = (ix', Inr payload)"
  obtains k' treasury where
    "treasury_status node (TREASURY_SCRIPT cfg) (TREASURY_ADDRESS cfg) (ci_blocks chain) ix k = (ix', k', Inr treasury)"
    "payload = status_payload cfg chain peers subversion mining updated @
       (case treasury of None \<Rightarrow> [] | Some r \<Rightarrow> report_fields r)"
proof -
  obtain ix1 k1 r where t: "treasury_status node (TREASURY_SCRIPT cfg) (TREASURY_ADDRESS cfg) (ci_blocks chain) ix k = (ix1, k1, r)"
    by (metis prod_cases3)
  from assms obtain treasury where r: "r = Inr treasury" "ix1 = ix'"
    by (cases r) (auto simp: build_status_def t Let_def)
  show ?thesis by (rule that [OF t [unfolded r]])
      (use assms in \<open>auto simp: build_status_def t r Let_def rbind_Inr_iff split: if_splits\<close>)
qed

lemma treasury_status_report:
  "treasury_status node script addr height ix k = (ix', k', Inr (Some r)) \<Longrightarrow> r = report_of addr height ix'"
  by (auto simp: treasury_status_def advance_treasury_index_def split: if_splits prod.splits sum.splits bool.splits)

section \<open>Reports that are fit for publication\<close>

text \<open>
  What the exporter needs of the node's answers and of the operator's settings, of the stamp, which
  \<^verbatim>\<open>time.strftime\<close> writes to the second, and of the amounts: whole numbers of the smallest unit, below
  the fifteen digits that the page shows.
\<close>

definition publishable :: "service_config \<Rightarrow> chain_info \<Rightarrow> nat list \<Rightarrow> mining_info \<Rightarrow> bool" where
  "publishable cfg chain subversion mining \<longleftrightarrow> hex64 (PStr (ci_bestblockhash chain)) \<and> length (ci_chain chain) \<le> 256 \<and>
     length (NODE_REGION cfg) \<le> 256 \<and> length (strip_slashes subversion) \<le> 256 \<and> length (TREASURY_ADDRESS cfg) \<le> 256 \<and>
     length (mi_algorithm mining) \<le> 64 \<and>
     (case ci_difficulty chain of PFloat x \<Rightarrow> num_finite x \<and> \<not> num_lt x (Fin 0)
      | PInt n \<Rightarrow> 0 \<le> n \<and> num_finite (round_double (of_int n)) | _ \<Rightarrow> False)"

definition utc_stamp :: "nat list \<Rightarrow> int \<Rightarrow> bool" where
  "utc_stamp s t \<longleftrightarrow> iso_utc s = Some t \<and> length s = 20 \<and> take 4 s \<noteq> lit ''0000'' \<and> take 2 (drop 11 s) \<noteq> lit ''24''"

definition amount_ok :: "rat \<Rightarrow> bool" where
  "amount_ok q \<longleftrightarrow> 0 \<le> q \<and> q < 10 ^ 15 - 1 \<and> q * 10 ^ 8 = of_int \<lfloor>q * 10 ^ 8\<rfloor>"

definition amounts_ok :: "nat \<Rightarrow> treasury_index \<Rightarrow> bool" where
  "amounts_ok height ix \<longleftrightarrow> list_all amount_ok [i_rewards ix, current_value ix, unlocked_value height ix,
     current_value ix - unlocked_value height ix, i_spent ix]"

lemma copy_fields_ok:
  "(\<And>n v. n \<in> set names \<Longrightarrow> pget d n = Some v \<Longrightarrow> check v = Inr ()) \<Longrightarrow> \<exists>r. copy_fields check names d = Inr r"
proof (induction names)
  case (Cons n names)
  have "\<exists>r. copy_fields check names d = Inr r" by (rule Cons.IH) (rule Cons.prems, simp_all)
  then show ?case using Cons.prems [of n] by (auto split: option.split)
qed simp

lemma fmt8_short: "amount_ok q \<Longrightarrow> length (fmt8 q) \<le> 256"
  using fmt8_amount [of q] unfolding amount_ok_def amount_shape by auto

lemma stamp_age_utc: "utc_stamp s t \<Longrightarrow> stamp_age env now (PStr s) = Inr (now - t * 1000)"
  by (simp add: utc_stamp_def stamp_age_def fromisoformat_def)

lemma public_snapshotI:
  assumes "pget d ''updatedAt'' = Some u" "stamp_age env now u = Inr age" "- 120000000 \<le> age" "age \<le> 120000000"
    "pget d ''bestBlockHash'' = Some h" "hex64 h" "pget d ''mining'' = Some m" "\<exists>c. clean_mining m = Inr c"
    "\<And>n v. n \<in> set public_texts \<Longrightarrow> pget d n = Some v \<Longrightarrow> check_text 256 v = Inr ()"
    "\<And>n v. n \<in> set public_counts \<Longrightarrow> pget d n = Some v \<Longrightarrow> check_count v = Inr ()"
    "\<And>n v. n \<in> set public_states \<Longrightarrow> pget d n = Some v \<Longrightarrow> check_bool v = Inr ()"
    "\<And>v. pget d ''difficulty'' = Some v \<Longrightarrow> check_difficulty v = Inr ()"
  shows "\<exists>r. public_snapshot env now (PDict d) name = Inr r"
proof -
  have "\<exists>a. copy_fields (check_text 256) public_texts d = Inr a" by (rule copy_fields_ok) (rule assms(9))
  moreover have "\<exists>b. copy_fields check_count public_counts d = Inr b" by (rule copy_fields_ok) (rule assms(10))
  moreover have "\<exists>c. copy_fields check_bool public_states d = Inr c" by (rule copy_fields_ok) (rule assms(11))
  moreover have "\<exists>e. copy_fields check_difficulty [''difficulty''] d = Inr e" by (rule copy_fields_ok) (simp add: assms(12))
  ultimately show ?thesis using assms(1-8) by (auto simp: public_snapshot_def require_def simp del: copy_fields.simps)
qed

lemma collector_payload_exported:
  assumes "build_status node cfg chain peers subversion mining updated ix k = (ix', Inr payload)"
    "publishable cfg chain subversion mining" "amounts_ok (ci_blocks chain) ix'" "utc_stamp updated t"
    "\<bar>now - t * 1000\<bar> \<le> 120000000"
  shows "\<exists>snap. public_snapshot env now (PDict payload) name = Inr snap"
proof -
  obtain k' treasury where tr: "treasury_status node (TREASURY_SCRIPT cfg) (TREASURY_ADDRESS cfg) (ci_blocks chain) ix k = (ix', k', Inr treasury)"
    and p: "payload = status_payload cfg chain peers subversion mining updated @
       (case treasury of None \<Rightarrow> [] | Some r \<Rightarrow> report_fields r)" by (rule build_statusE [OF assms(1)])
  let ?base = "status_payload cfg chain peers subversion mining updated"
  have len: "length (network_name (ci_chain chain)) \<le> 256"
    by (simp add: network_name_def lit_def)
  have texts: "list_all (\<lambda>n. \<forall>v. pget payload n = Some v \<longrightarrow> check_text 256 v = Inr ()) public_texts"
  proof (cases treasury)
    case None
    then show ?thesis using assms(2) len
      by (simp add: p status_payload_def public_texts_def check_text_def require_def publishable_def)
  next
    case (Some r)
    then have r: "r = report_of (TREASURY_ADDRESS cfg) (ci_blocks chain) ix'" using tr by (intro treasury_status_report) simp
    have "length (fmt8 q) \<le> 256" if "q \<in> set [i_rewards ix', current_value ix', unlocked_value (ci_blocks chain) ix',
        current_value ix' - unlocked_value (ci_blocks chain) ix', i_spent ix']" for q
      using that assms(3) fmt8_short unfolding amounts_ok_def list_all_iff by blast
    then show ?thesis using assms(2) len
      by (simp add: p Some r pget_append status_payload_def public_texts_def check_text_def require_def publishable_def
          report_fields_def report_of_def)
  qed
  have other: "pget payload n = pget ?base n" if "n \<notin> set public_texts" for n
    using that by (cases treasury) (simp_all add: p pget_append report_fields_def public_texts_def split: option.split)
  have counts: "list_all (\<lambda>n. \<forall>v. pget payload n = Some v \<longrightarrow> check_count v = Inr ()) public_counts"
    by (simp add: public_counts_def other public_texts_def status_payload_def check_count_def require_def)
  have states: "list_all (\<lambda>n. \<forall>v. pget payload n = Some v \<longrightarrow> check_bool v = Inr ()) public_states"
    by (simp add: public_states_def other public_texts_def status_payload_def check_bool_def require_def)
  have mining: "\<exists>c. clean_mining (PDict (dict [(''active'', case mi_active mining of PBool b \<Rightarrow> PBool b | _ \<Rightarrow> PNone),
         (''threads'', PInt (int (mi_threads mining))), (''speed'', PInt (int (mi_speed mining))),
         (''algorithm'', PStr (mi_algorithm mining))])) = Inr c"
    using assms(2) by (simp add: clean_mining_def check_count_def check_active_def check_text_def require_def publishable_def
        split: pyval.split)
  have difficulty: "check_difficulty (ci_difficulty chain) = Inr ()"
    using assms(2) by (cases "ci_difficulty chain") (simp_all add: publishable_def check_difficulty_def require_def)
  have get: "pget payload ''updatedAt'' = Some (PStr updated)" "pget payload ''bestBlockHash'' = Some (PStr (ci_bestblockhash chain))"
    "pget payload ''difficulty'' = Some (ci_difficulty chain)"
    "pget payload ''mining'' = Some (PDict (dict [(''active'', case mi_active mining of PBool b \<Rightarrow> PBool b | _ \<Rightarrow> PNone),
         (''threads'', PInt (int (mi_threads mining))), (''speed'', PInt (int (mi_speed mining))),
         (''algorithm'', PStr (mi_algorithm mining))]))"
    by (simp_all add: other public_texts_def status_payload_def)
  show ?thesis
    by (rule public_snapshotI [OF get(1) stamp_age_utc [OF assms(4)] _ _ get(2) _ get(4) mining])
      (use assms(2,5) texts counts states get(3) difficulty in \<open>simp_all add: list_all_iff publishable_def\<close>)
qed

section \<open>The treasury's amounts\<close>

text \<open>A formatted amount is read back unchanged.\<close>

lemma amount_units:
  assumes "amount_ok q"
  obtains m where "0 \<le> m" "q * 10 ^ 8 = of_int m" "round_half_even (q * 10 ^ 8) = m" "q = of_nat (nat m) / 10 ^ 8"
proof -
  have q: "0 \<le> q" "q * 10 ^ 8 = of_int \<lfloor>q * 10 ^ 8\<rfloor>" using assms unfolding amount_ok_def by blast+
  have "0 \<le> q * 10 ^ 8" using q(1) by simp
  then have n: "0 \<le> \<lfloor>q * 10 ^ 8\<rfloor>" by simp
  have r: "round_half_even (q * 10 ^ 8) = \<lfloor>q * 10 ^ 8\<rfloor>" by (subst q(2)) (rule round_half_even_of_int)
  have "(of_nat (nat \<lfloor>q * 10 ^ 8\<rfloor>) :: rat) = of_int \<lfloor>q * 10 ^ 8\<rfloor>" using n by (rule of_nat_nat)
  then have "q = of_nat (nat \<lfloor>q * 10 ^ 8\<rfloor>) / 10 ^ 8" using q(2) by (simp only: q(2) [symmetric]) simp
  then show thesis using that [OF n q(2) r] by blast
qed

lemma Decimal_fmt8:
  assumes "amount_ok q"
  shows "Decimal env (fmt8 q) = Some (DFin False q)"
proof -
  obtain m where m: "round_half_even (q * 10 ^ 8) = m" "q = of_nat (nat m) / 10 ^ 8" by (rule amount_units [OF assms])
  have q: "0 \<le> q" using assms by (simp add: amount_ok_def)
  have "Decimal env (fmt8 q) = Some (DFin False (of_nat (nat m) / 10 ^ 8))"
    unfolding fmt8_nonneg [OF q m(1)] Decimal_parts [OF digits_are_digits digits_nonempty pad_digits] decimal_digits_pad ..
  then show ?thesis unfolding m(2) [symmetric] .
qed

lemma read_amount_fmt8:
  assumes "pget d key = Some (PStr (fmt8 q))" "amount_ok q"
  shows "read_amount env d key = Inr (False, q)"
proof -
  have "q * 10 ^ 8 < 10 ^ 15 * 10 ^ 8" using assms(2) unfolding amount_ok_def by (intro mult_strict_right_mono) simp_all
  then have "\<not> q * 10 ^ 8 \<ge> 10 ^ 28" by simp
  then show ?thesis using assms by (simp add: read_amount_def Decimal_fmt8) (simp add: amount_ok_def)
qed

lemma dec_add_exact: "amount_ok (x + y) \<Longrightarrow> dec_add x y = x + y"
proof -
  assume "amount_ok (x + y)"
  then have "x + y < 10 ^ 15" unfolding amount_ok_def by simp
  then have "(x + y) * 10 ^ 8 < 10 ^ 28" by simp
  then show ?thesis by (simp only: dec_add_def Let_def if_True)
qed

lemma publisher_accepts:
  assumes id: "pget d ''network'' = Some (PStr (lit ''slithy-testnet''))" "pget d ''treasuryAddress'' = Some (PStr addr)"
      "pget d ''chain'' = Some (PStr (lit ''test''))" "pget d ''bestBlockHash'' = Some h" "hex64 h"
      "pget d ''chainHeight'' = Some (PInt n)" "0 \<le> n"
    and u: "pget d ''updatedAt'' = Some (PStr updated)" "utc_stamp updated t" "\<bar>now - t * 1000\<bar> \<le> 120000000"
    and a: "pget d ''currentBalance'' = Some (PStr (fmt8 current))" "pget d ''unlockedBalance'' = Some (PStr (fmt8 unlocked))"
      "pget d ''immatureBalance'' = Some (PStr (fmt8 (current - unlocked)))" "pget d ''accruedRewards'' = Some (PStr (fmt8 rewards))"
      "pget d ''totalSpent'' = Some (PStr (fmt8 spent))"
    and ok: "amount_ok current" "amount_ok unlocked" "amount_ok (current - unlocked)" "amount_ok rewards" "amount_ok spent"
  shows "validate_treasury env now (PDict d) (lit ''slithy-testnet'') addr =
    Inr (dict [(''network'', PStr (lit ''slithy-testnet'')), (''chain'', PStr (lit ''test'')), (''bestBlockHash'', h),
      (''treasuryAddress'', PStr addr), (''chainHeight'', PInt n), (''updatedAt'', PStr updated),
      (''currentBalance'', PStr (fmt8 current)), (''unlockedBalance'', PStr (fmt8 unlocked)),
      (''immatureBalance'', PStr (fmt8 (current - unlocked))), (''accruedRewards'', PStr (fmt8 rewards)),
      (''totalSpent'', PStr (fmt8 spent))])"
proof -
  have am: "read_amounts env d amount_keys = Inr [(''currentBalance'', False, current), (''unlockedBalance'', False, unlocked),
      (''immatureBalance'', False, current - unlocked), (''accruedRewards'', False, rewards), (''totalSpent'', False, spent)]"
    using a ok by (simp add: amount_keys_def read_amount_fmt8)
  have sum: "dec_add unlocked (current - unlocked) = current" using dec_add_exact [of unlocked "current - unlocked"] ok(1) by simp
  have c: "expected_chain (lit ''slithy-testnet'') = Some (lit ''test'')" by (simp add: expected_chain_def)
  have "- 120000000 \<le> now - t * 1000 \<and> now - t * 1000 \<le> 120000000" using u(3) by linarith
  moreover have "\<not> n < 0" using id(7) by simp
  ultimately show ?thesis
    by (simp add: validate_treasury_def id u(1) am c stamp_age_utc [OF u(2)] require_def amount_of_def sum dec_format_def dict_def
        split del: if_split)
qed

section \<open>The pages\<close>

lemma classify_fresh:
  assumes "get data ''updatedAt'' = Inr (JStr s)" "iso_utc s = Some t" "t - 30000 \<le> now" "now \<le> t + 120000"
    "\<bar>now\<bar> \<le> 8640000000000000" "verified env data = Inr True" "get data ''initialBlockDownload'' = Inr (JBool b)"
  shows "\<exists>st. classify env data (Fin (of_int now)) = Inr st \<and> state st = (if b then ''syncing'' else ''online'') \<and>
    stamp st = Some (Fin (of_int t))"
proof -
  have tr: "truthy data" using assms(1) by (cases data) (auto simp: get_def split: option.splits)
  have d: "Date_parse env s = Fin (of_int t)" using assms(2) by (simp add: Date_parse_def)
  have "\<not> (\<not> num_finite (Fin (of_int t)) \<or> num_lt (num_add (Fin (of_int now)) (Fin 30000)) (Fin (of_int t)) \<or>
      num_lt (Fin 120000) (num_sub (Fin (of_int now)) (Fin (of_int t))))"
    unfolding window_agrees [OF assms(5) disjI2 [OF exI [of _ t, OF refl]]]
    unfolding Let_def num_sub.simps of_int_diff [symmetric] round_double_window using assms(3,4) by simp
  moreover have "truthy (opt_get data ''initialBlockDownload'') = b" using assms(7) by (simp add: opt_get_def)
  ultimately show ?thesis using assms(1,6) tr by (simp add: classify_def d Let_def)
qed

lemma hash_conds:
  assumes "get data ''bestBlockHash'' = Inr (JStr s)" "s \<noteq> []" "re_test hash_re s"
  shows "hash_test env data ''bestBlockHash'' = Inr True" "hash_check env data = Inr True"
  using assms by (simp_all add: hash_test_def hash_check_def or_else_def)

lemma validAmount_fmt8: "amount_ok q \<Longrightarrow> validAmount (JStr (fmt8 q))"
  by (intro validAmount_re fmt8_amount) (simp_all add: amount_ok_def)

lemma utf16_amount: "amount_ok q \<Longrightarrow> utf16 (fmt8 q) = fmt8 q"
  by (rule utf16_fmt8) (simp_all add: amount_ok_def)

lemma exported_get:
  assumes "public_snapshot env now (PDict d) name = Inr snap" "k \<in> set public_fields" "pget d k = Some v"
  shows "get (to_js (PDict snap)) k = Inr (to_js v)"
  unfolding get_to_js [OF public_snapshot_keys [OF assms(1)]] public_snapshot_get [OF assms(1,2)] assms(3) by simp

definition ex_tip :: "nat list" where
  "ex_tip = replicate 64 48"

definition ex_live :: node_rpc where
  "ex_live = \<lparr>chain_at = \<lambda>_. [[7], ex_tip], block_of = \<lambda>_. None, call_fails = \<lambda>_. False, deadline_passed = \<lambda>_. False\<rparr>"

definition ex_cfg :: service_config where
  "ex_cfg = \<lparr>NODE_NAME = lit ''mome'', NODE_REGION = [], TREASURY_SCRIPT = [1], TREASURY_ADDRESS = betaTreasury\<rparr>"

definition ex_chain :: chain_info where
  "ex_chain = \<lparr>ci_chain = lit ''test'', ci_blocks = 1, ci_headers = 1, ci_bestblockhash = ex_tip, ci_difficulty = PFloat (Fin 1),
     ci_initialblockdownload = False\<rparr>"

definition ex_mining :: mining_info where
  "ex_mining = \<lparr>mi_active = PNone, mi_threads = 0, mi_speed = 0, mi_algorithm = []\<rparr>"

definition ex_index :: treasury_index where
  "ex_index = \<lparr>i_height = 1, i_hash = ex_tip, i_utxos = [((Some [1], Some 0), (9, 1, True))], i_rewards = 9, i_spent = 0\<rparr>"

lemma ex_collected:
  "build_status ex_live ex_cfg ex_chain 2 [] ex_mining (lit ''2026-09-09T00:00:00Z'') ex_index 0 = (ex_index,
     Inr (status_payload ex_cfg ex_chain 2 [] ex_mining (lit ''2026-09-09T00:00:00Z'') @ report_fields (report_of betaTreasury 1 ex_index)))"
proof -
  have "betaTreasury \<noteq> []" by (simp add: betaTreasury_def lit_def)
  then have "treasury_status ex_live [1] betaTreasury 1 ex_index 0 = (ex_index, 2, Inr (Some (report_of betaTreasury 1 ex_index)))"
    by (simp add: treasury_status_def advance_treasury_index_def revalidate_def getblockhash_def ex_live_def ex_index_def)
  then show ?thesis by (simp add: build_status_def ex_cfg_def ex_chain_def Let_def) (simp add: getblockhash_def ex_live_def)
qed

lemma ex_fit:
  "publishable ex_cfg ex_chain [] ex_mining" "amounts_ok (ci_blocks ex_chain) ex_index" "utc_stamp (lit ''2026-09-09T00:00:00Z'') 1788912000000"
proof -
  have "hex64 (PStr ex_tip)" by (simp add: hex64_shape ex_tip_def list_all_iff is_hex_def is_digit_def)
  moreover have "length betaTreasury \<le> 256" "length (lit ''test'') \<le> 256" by (simp_all add: betaTreasury_def lit_def)
  ultimately show "publishable ex_cfg ex_chain [] ex_mining"
    by (simp add: publishable_def ex_cfg_def ex_chain_def ex_mining_def strip_slashes_def)
  show "amounts_ok (ci_blocks ex_chain) ex_index"
    by (simp add: amounts_ok_def amount_ok_def ex_chain_def ex_index_def current_value_def unlocked_value_def)
  show "utc_stamp (lit ''2026-09-09T00:00:00Z'') 1788912000000" by (simp add: utc_stamp_def ex_stamp) (simp add: lit_def)
qed

text \<open>
  C15. A node's report reaches its card. When the collector answers for the test chain with values that are fit for
  publication, and the exporter's clock is within two minutes of the stamp, the exporter publishes the
  report; and at any time from 30 seconds before to two minutes after the stamp, the script of the page
  shows the node as syncing or online, as the node itself said, with the collector's stamp.
\<close>

theorem node_report_reaches_its_card:
  assumes "build_status node cfg chain peers subversion mining updated ix k = (ix', Inr payload)"
    "publishable cfg chain subversion mining" "amounts_ok (ci_blocks chain) ix'" "utc_stamp updated t"
    "\<bar>exported - t * 1000\<bar> \<le> 120000000"
    "ci_chain chain = lit ''test''" "ci_blocks chain < 2 ^ 53" "peers < 2 ^ 53"
    "t - 30000 \<le> now" "now \<le> t + 120000" "\<bar>now\<bar> \<le> 8640000000000000"
  shows "\<exists>snap st. public_snapshot penv exported (PDict payload) name = Inr snap \<and>
    classify env (to_js (PDict snap)) (Fin (of_int now)) = Inr st \<and>
    state st = (if ci_initialblockdownload chain then ''syncing'' else ''online'') \<and> stamp st = Some (Fin (of_int t))"
proof -
  obtain snap where snap: "public_snapshot penv exported (PDict payload) name = Inr snap"
    using collector_payload_exported [OF assms(1-5)] by blast
  obtain k' treasury where p: "payload = status_payload cfg chain peers subversion mining updated @
       (case treasury of None \<Rightarrow> [] | Some r \<Rightarrow> report_fields r)" by (rule build_statusE [OF assms(1)])
  let ?r = "to_js (PDict snap)"
  note fields = public_fields_def public_texts_def public_counts_def public_states_def
  have g: "get ?r n = Inr (to_js v)" if "n \<in> set public_fields" "pget (status_payload cfg chain peers subversion mining updated) n = Some v" for n v
    using exported_get [OF snap that(1), of v] that(2) by (simp add: p pget_append del: to_js.simps)
  note got = g [unfolded status_payload_def fields pget_dict]
  have iso: "iso_utc updated = Some t" using assms(4) by (simp add: utc_stamp_def)
  obtain h where h: "h = ci_bestblockhash chain" "h \<noteq> []" "utf16 h = h" "re_test hash_re h"
    using hex64_plain [of "PStr (ci_bestblockhash chain)"] assms(2) by (auto simp: publishable_def)
  have u: "get ?r ''updatedAt'' = Inr (JStr updated)" using got [of "''updatedAt''"] iso_utc_plain(1) [OF iso] by (simp del: to_js.simps(7))
  have b: "get ?r ''initialBlockDownload'' = Inr (JBool (ci_initialblockdownload chain))"
    using got [of "''initialBlockDownload''"] by (simp del: to_js.simps(7))
  have hh: "get ?r ''bestBlockHash'' = Inr (JStr h)" using got [of "''bestBlockHash''"] h(1,3) by (simp del: to_js.simps(7))
  have c: "get ?r ''chain'' = Inr (JStr (lit ''test''))" using got [of "''chain''"] assms(6) by (simp del: to_js.simps(7))
  have n: "get ?r ''height'' = Inr (ex_num (int (ci_blocks chain)))" "get ?r ''peerCount'' = Inr (ex_num (int peers))"
    using got [of "''height''"] got [of "''peerCount''"] to_js_count assms(7,8) by (simp_all del: to_js.simps)
  have "verified env (to_js (PDict snap)) = Inr True"
    using c b n hash_conds(1) [OF hh h(2,4)] assms(7,8) by (simp add: verified_def conds_True has_def)
  then show ?thesis using snap classify_fresh [OF u iso assms(9-11) _ b] by blast
qed

theorem node_report_reaches_its_card_witness:
  "\<exists>snap st. public_snapshot \<lparr>iso_other = \<lambda>_. None, decimal_other = \<lambda>_. None, py_str_other = \<lambda>_. []\<rparr> 1788912001000000
      (PDict (status_payload ex_cfg ex_chain 2 [] ex_mining (lit ''2026-09-09T00:00:00Z'') @ report_fields (report_of betaTreasury 1 ex_index)))
      ''mome'' = Inr snap \<and> classify ex_env (to_js (PDict snap)) (Fin (of_int 1788912002000)) = Inr st \<and> state st = ''online''"
proof -
  have c: "ci_chain ex_chain = lit ''test''" "ci_blocks ex_chain < 2 ^ 53" "\<not> ci_initialblockdownload ex_chain" by (simp_all add: ex_chain_def)
  show ?thesis
    using node_report_reaches_its_card [OF ex_collected ex_fit _ c(1,2), of 1788912001000000 1788912002000
        "\<lparr>iso_other = \<lambda>_. None, decimal_other = \<lambda>_. None, py_str_other = \<lambda>_. []\<rparr>" "''mome''" ex_env] c(3) by auto
qed

lemma page_accepts:
  fixes h updated current unlocked
  assumes d: "d = dict [(''network'', PStr (lit ''slithy-testnet'')), (''chain'', PStr (lit ''test'')), (''bestBlockHash'', h),
      (''treasuryAddress'', PStr betaTreasury), (''chainHeight'', PInt (int n)), (''updatedAt'', PStr updated),
      (''currentBalance'', PStr (fmt8 current)), (''unlockedBalance'', PStr (fmt8 unlocked)),
      (''immatureBalance'', i), (''accruedRewards'', r), (''totalSpent'', s)]"
    and ok: "hex64 h" "n < 2 ^ 53" "iso_utc updated = Some t" "t - 30000 \<le> now" "now \<le> t + 120000" "amount_ok current" "amount_ok unlocked"
  shows "validate_status env (to_js (PDict d)) (Fin (of_int now)) = Inr True"
    "get (to_js (PDict d)) ''currentBalance'' = Inr (JStr (fmt8 current))" "get (to_js (PDict d)) ''unlockedBalance'' = Inr (JStr (fmt8 unlocked))"
proof -
  let ?r = "to_js (PDict d)"
  have g: "get ?r k = Inr (case pget d k of None \<Rightarrow> JUndefined | Some v \<Rightarrow> to_js v)" for k
    by (rule get_to_js) (unfold d, rule dict_keys)
  obtain x where x: "h = PStr x" "x \<noteq> []" "utf16 x = x" "re_test hash_re x" using hex64_plain [OF ok(1)] by blast
  have u: "get ?r ''updatedAt'' = Inr (JStr updated)" unfolding g using iso_utc_plain(1) [OF ok(3)] by (simp add: d)
  have hh: "get ?r ''bestBlockHash'' = Inr (JStr x)" unfolding g using x(1,3) by (simp add: d)
  have addr: "get ?r ''treasuryAddress'' = Inr (JStr betaTreasury)" unfolding g by (simp add: d betaTreasury_def)
  show a: "get ?r ''currentBalance'' = Inr (JStr (fmt8 current))" "get ?r ''unlockedBalance'' = Inr (JStr (fmt8 unlocked))"
    unfolding g using utf16_amount ok(6,7) by (simp_all add: d)
  have c: "get ?r ''chain'' = Inr (JStr (lit ''test''))" "get ?r ''network'' = Inr (JStr (lit ''slithy-testnet''))" unfolding g by (simp_all add: d)
  have n: "get ?r ''chainHeight'' = Inr (ex_num (int n))" unfolding g using to_js_count [OF ok(2)] by (simp add: d del: to_js.simps)
  have tr: "truthy ?r" by simp
  have "fresh env ?r (Fin (of_int now)) = Inr True" using fresh_iso [OF u ok(3)] ok(4,5) by simp
  then show "validate_status env ?r (Fin (of_int now)) = Inr True"
    unfolding validate_status_def using tr a c n addr hash_conds(2) [OF hh x(2,4)] ok(2) validAmount_fmt8 [OF ok(6)] validAmount_fmt8 [OF ok(7)]
    by (simp add: conds_True has_def del: to_js.simps)
qed

lemma payload_report:
  assumes "build_status node cfg chain peers subversion mining updated ix k = (ix', Inr payload)"
    "pget payload ''currentBalance'' \<noteq> None" "v = pget (report_fields (report_of (TREASURY_ADDRESS cfg) (ci_blocks chain) ix')) key"
    "key \<in> set [''treasuryAddress'', ''accruedRewards'', ''currentBalance'', ''unlockedBalance'', ''immatureBalance'', ''totalSpent'']"
  shows "pget payload key = v"
proof -
  obtain k' treasury where tr: "treasury_status node (TREASURY_SCRIPT cfg) (TREASURY_ADDRESS cfg) (ci_blocks chain) ix k = (ix', k', Inr treasury)"
    and p: "payload = status_payload cfg chain peers subversion mining updated @
       (case treasury of None \<Rightarrow> [] | Some r \<Rightarrow> report_fields r)" by (rule build_statusE [OF assms(1)])
  let ?keys = "[''treasuryAddress'', ''accruedRewards'', ''currentBalance'', ''unlockedBalance'', ''immatureBalance'', ''totalSpent'']"
  have "list_all (\<lambda>n. pget (status_payload cfg chain peers subversion mining updated) n = None) ?keys"
    by (simp add: status_payload_def)
  then have base: "pget (status_payload cfg chain peers subversion mining updated) n = None" if "n \<in> set ?keys" for n
    using that unfolding list_all_iff by blast
  obtain r where r: "treasury = Some r" using assms(2) base [of "''currentBalance''"] by (cases treasury) (simp_all add: p pget_append)
  then have "r = report_of (TREASURY_ADDRESS cfg) (ci_blocks chain) ix'" using tr by (intro treasury_status_report) simp
  then show ?thesis using base [OF assms(4)] assms(3) by (simp add: p pget_append r)
qed

text \<open>
  C2. The treasury's balance reaches its page. When the collector answers with a treasury report for the configured
  address on the test chain, fit for publication, then the exporter publishes the snapshot, the treasury
  publisher accepts it, and from 30 seconds before to two minutes after the stamp the page accepts what is
  published; the balances it shows are those of the collector's index, to the last of eight decimals.
\<close>

theorem treasury_balance_reaches_its_page:
  assumes "build_status node cfg chain peers subversion mining updated ix k = (ix', Inr payload)"
    "publishable cfg chain subversion mining" "amounts_ok (ci_blocks chain) ix'" "utc_stamp updated t"
    "\<bar>exported - t * 1000\<bar> \<le> 120000000" "\<bar>published - t * 1000\<bar> \<le> 120000000"
    "pget payload ''currentBalance'' \<noteq> None" "TREASURY_ADDRESS cfg = betaTreasury"
    "ci_chain chain = lit ''test''" "ci_blocks chain < 2 ^ 53" "t - 30000 \<le> now" "now \<le> t + 120000"
  shows "\<exists>snap pub. public_snapshot penv exported (PDict payload) name = Inr snap \<and>
    validate_treasury penv published (PDict snap) (lit ''slithy-testnet'') betaTreasury = Inr pub \<and>
    validate_status env (to_js (PDict pub)) (Fin (of_int now)) = Inr True \<and>
    get (to_js (PDict pub)) ''currentBalance'' = Inr (JStr (fmt8 (current_value ix'))) \<and>
    get (to_js (PDict pub)) ''unlockedBalance'' = Inr (JStr (fmt8 (unlocked_value (ci_blocks chain) ix')))"
proof -
  obtain snap where snap: "public_snapshot penv exported (PDict payload) name = Inr snap"
    using collector_payload_exported [OF assms(1-5)] by blast
  obtain k' treasury where p: "payload = status_payload cfg chain peers subversion mining updated @
       (case treasury of None \<Rightarrow> [] | Some r \<Rightarrow> report_fields r)" by (rule build_statusE [OF assms(1)])
  note fields = public_fields_def public_texts_def public_counts_def public_states_def
  note s = public_snapshot_get [OF snap]
  note rep = payload_report [OF assms(1,7) refl, unfolded report_fields_def report_of_def pget_dict]
  have h: "hex64 (PStr (ci_bestblockhash chain))" using assms(2) by (simp add: publishable_def)
  have iso: "iso_utc updated = Some t" using assms(4) by (simp add: utc_stamp_def)
  have ok: "amount_ok (current_value ix')" "amount_ok (unlocked_value (ci_blocks chain) ix')"
    "amount_ok (current_value ix' - unlocked_value (ci_blocks chain) ix')" "amount_ok (i_rewards ix')" "amount_ok (i_spent ix')"
    using assms(3) by (simp_all add: amounts_ok_def)
  have base: "pget snap n = Some v" if "n \<in> set public_fields" "pget (status_payload cfg chain peers subversion mining updated) n = Some v" for n v
    using that s by (simp add: p pget_append)
  note b = base [unfolded fields status_payload_def pget_dict]
  have "validate_treasury penv published (PDict snap) (lit ''slithy-testnet'') betaTreasury =
    Inr (dict [(''network'', PStr (lit ''slithy-testnet'')), (''chain'', PStr (lit ''test'')), (''bestBlockHash'', PStr (ci_bestblockhash chain)),
      (''treasuryAddress'', PStr betaTreasury), (''chainHeight'', PInt (int (ci_blocks chain))), (''updatedAt'', PStr updated),
      (''currentBalance'', PStr (fmt8 (current_value ix'))), (''unlockedBalance'', PStr (fmt8 (unlocked_value (ci_blocks chain) ix'))),
      (''immatureBalance'', PStr (fmt8 (current_value ix' - unlocked_value (ci_blocks chain) ix'))), (''accruedRewards'', PStr (fmt8 (i_rewards ix'))),
      (''totalSpent'', PStr (fmt8 (i_spent ix')))])"
    by (rule publisher_accepts [OF _ _ _ _ h _ _ _ assms(4,6) _ _ _ _ _ ok])
      (use b [of "''network''"] b [of "''chain''"] assms(8,9) in \<open>simp_all add: b rep s fields network_name_def\<close>)
  then show ?thesis using snap page_accepts [OF refl h assms(10) iso assms(11,12) ok(1,2)] by blast
qed

theorem treasury_balance_reaches_its_page_witness:
  "\<exists>snap pub. public_snapshot \<lparr>iso_other = \<lambda>_. None, decimal_other = \<lambda>_. None, py_str_other = \<lambda>_. []\<rparr> 1788912001000000
      (PDict (status_payload ex_cfg ex_chain 2 [] ex_mining (lit ''2026-09-09T00:00:00Z'') @ report_fields (report_of betaTreasury 1 ex_index)))
      ''mome'' = Inr snap \<and>
    validate_treasury \<lparr>iso_other = \<lambda>_. None, decimal_other = \<lambda>_. None, py_str_other = \<lambda>_. []\<rparr> 1788912002000000 (PDict snap)
      (lit ''slithy-testnet'') betaTreasury = Inr pub \<and>
    validate_status ex_env (to_js (PDict pub)) (Fin (of_int 1788912003000)) = Inr True \<and>
    get (to_js (PDict pub)) ''currentBalance'' = Inr (JStr (fmt8 9))"
proof -
  have c: "ci_chain ex_chain = lit ''test''" "ci_blocks ex_chain < 2 ^ 53" "TREASURY_ADDRESS ex_cfg = betaTreasury"
    by (simp_all add: ex_chain_def ex_cfg_def)
  have b: "pget (status_payload ex_cfg ex_chain 2 [] ex_mining (lit ''2026-09-09T00:00:00Z'') @ report_fields (report_of betaTreasury 1 ex_index))
      ''currentBalance'' \<noteq> None" by (simp add: pget_append report_fields_def split: option.split)
  have "current_value ex_index = 9" by (simp add: current_value_def ex_index_def)
  then show ?thesis
    using treasury_balance_reaches_its_page [OF ex_collected ex_fit _ _ b c(3,1,2), of 1788912001000000 1788912002000000 1788912003000
        "\<lparr>iso_other = \<lambda>_. None, decimal_other = \<lambda>_. None, py_str_other = \<lambda>_. []\<rparr>" "''mome''" ex_env] by (auto simp del: to_js.simps)
qed

end
