(* ===== verification/Explorer_Service.thy ===== *)
theory Explorer_Service
  imports Publishers Explorer
begin

text \<open>
  The explorer report of \<^verbatim>\<open>src/services/slithy-node-status-server.py\<close>: summaries of the last 25 blocks
  (\<^verbatim>\<open>transaction_summary\<close>, \<^verbatim>\<open>block_summary\<close>), the loop that keeps the report below 750000 bytes, and
  \<^verbatim>\<open>build_explorer\<close> with its cache. The node's answers are arguments, as for the treasury index. The
  lemmas show that the loop ends, and that the page \<^verbatim>\<open>src/site/explorer.js\<close> accepts the report.
\<close>

section \<open>Serialization\<close>

text \<open>
  \<^verbatim>\<open>json.dumps\<close> with its default arguments: every character outside the printable ASCII range is
  escaped, so the number of bytes is the number of characters. The text of a float is an argument.
\<close>

definition hex_digit :: "nat \<Rightarrow> nat" where
  "hex_digit d = (if d < 10 then 48 + d else 87 + d)"

definition u_escape :: "nat \<Rightarrow> nat list" where
  "u_escape c = [92, 117, hex_digit (c div 4096 mod 16), hex_digit (c div 256 mod 16), hex_digit (c div 16 mod 16), hex_digit (c mod 16)]"

definition escape_char :: "nat \<Rightarrow> nat list" where
  "escape_char c =
     (if c = 34 then [92, 34] else if c = 92 then [92, 92] else if c = 10 then [92, 110] else if c = 13 then [92, 114]
      else if c = 9 then [92, 116] else if c = 12 then [92, 102] else if c = 8 then [92, 98]
      else if 32 \<le> c \<and> c \<le> 126 then [c] else concat (map u_escape (utf16 [c])))"

definition quoted :: "nat list \<Rightarrow> nat list" where
  "quoted s = 34 # concat (map escape_char s) @ [34]"

fun joined :: "nat list list \<Rightarrow> nat list" where
  "joined [] = []"
| "joined [x] = x"
| "joined (x # y # xs) = x @ 44 # 32 # joined (y # xs)"

fun dumps :: "(jsnum \<Rightarrow> nat list) \<Rightarrow> pyval \<Rightarrow> nat list" where
  "dumps rep PNone = lit ''null''"
| "dumps rep (PBool b) = (if b then lit ''true'' else lit ''false'')"
| "dumps rep (PInt n) = (if n < 0 then [45] else []) @ digits (nat \<bar>n\<bar>)"
| "dumps rep (PFloat x) = rep x"
| "dumps rep (PStr s) = quoted s"
| "dumps rep (PList xs) = 91 # joined (map (dumps rep) xs) @ [93]"
| "dumps rep (PDict ps) = 123 # joined (map (\<lambda>(k, v). quoted k @ 58 # 32 # dumps rep v) ps) @ [125]"

section \<open>Summaries\<close>

record prevout =
  po_address :: "nat list option"
  po_value :: "rat option"

record vin3 =
  v3_coinbase :: bool
  v3_txid :: "nat list option"
  v3_vout :: "int option"
  v3_prevout :: prevout

record vout3 =
  o3_n :: int
  o3_value :: rat
  o3_hex :: "nat list option"
  o3_address :: "nat list option"
  o3_type :: "nat list option"

record tx3 =
  t3_txid :: "nat list"
  t3_vin :: "vin3 list"
  t3_vout :: "vout3 list"

record block3 =
  b3_time :: int
  b3_mediantime :: int
  b3_size :: int
  b3_weight :: int
  b3_difficulty :: jsnum
  b3_tx :: "tx3 list"

definition opt_text :: "nat list option \<Rightarrow> pyval" where
  "opt_text x = (case x of None \<Rightarrow> PNone | Some s \<Rightarrow> PStr s)"

definition input_summary :: "vin3 \<Rightarrow> pyval" where
  "input_summary vin =
     (if v3_coinbase vin then PDict (dict [(''coinbase'', PBool True)])
      else
        let previous = v3_prevout vin in
        PDict (dict [(''txid'', opt_text (v3_txid vin)), (''vout'', case v3_vout vin of None \<Rightarrow> PNone | Some n \<Rightarrow> PInt n),
          (''address'', opt_text (po_address previous)),
          (''value'', case po_value previous of None \<Rightarrow> PNone | Some x \<Rightarrow> PStr (fmt8 x))]))"

definition output_summary :: "nat list \<Rightarrow> vout3 \<Rightarrow> pyval" where
  "output_summary script out =
     PDict (dict [(''n'', PInt (o3_n out)), (''address'', opt_text (o3_address out)),
       (''type'', PStr (case o3_type out of None \<Rightarrow> lit ''unknown'' | Some t \<Rightarrow> t)), (''value'', PStr (fmt8 (o3_value out))),
       (''treasury'', PBool (script \<noteq> [] \<and> o3_hex out = Some script))])"

definition transaction_summary :: "nat list \<Rightarrow> tx3 \<Rightarrow> pyval" where
  "transaction_summary script tx =
     PDict (dict [(''txid'', PStr (t3_txid tx)), (''coinbase'', PBool (list_ex v3_coinbase (t3_vin tx))),
       (''inputs'', PList (map input_summary (take 16 (t3_vin tx)))),
       (''outputs'', PList (map (output_summary script) (take 16 (t3_vout tx)))),
       (''inputCount'', PInt (int (length (t3_vin tx)))), (''outputCount'', PInt (int (length (t3_vout tx))))])"

record block_sum =
  s_height :: nat
  s_hash :: "nat list"
  s_time :: int
  s_medianTime :: int
  s_confirmations :: int
  s_transactionCount :: nat
  s_transactions :: "pyval list"
  s_size :: int
  s_weight :: int
  s_difficulty :: jsnum
  s_minerSubsidyEstimate :: "nat list"
  s_treasurySubsidyEstimate :: "nat list"

definition block_json :: "block_sum \<Rightarrow> pyval" where
  "block_json b = PDict (dict
     [(''height'', PInt (int (s_height b))), (''hash'', PStr (s_hash b)), (''time'', PInt (s_time b)), (''medianTime'', PInt (s_medianTime b)),
      (''confirmations'', PInt (s_confirmations b)), (''transactionCount'', PInt (int (s_transactionCount b))),
      (''transactions'', PList (s_transactions b)), (''size'', PInt (s_size b)), (''weight'', PInt (s_weight b)),
      (''difficulty'', PFloat (s_difficulty b)), (''minerSubsidyEstimate'', PStr (s_minerSubsidyEstimate b)),
      (''treasurySubsidyEstimate'', PStr (s_treasurySubsidyEstimate b))])"

fun reward_split :: "nat list \<Rightarrow> vout3 list \<Rightarrow> rat \<Rightarrow> rat \<Rightarrow> rat \<times> rat" where
  "reward_split script [] coinbase_value treasury_value = (coinbase_value, treasury_value)"
| "reward_split script (out # outs) coinbase_value treasury_value =
     (if script \<noteq> [] \<and> o3_hex out = Some script
      then reward_split script outs coinbase_value (treasury_value + o3_value out)
      else reward_split script outs (coinbase_value + o3_value out) treasury_value)"

text \<open>Two calls, number \<open>k\<close> and \<open>k + 1\<close>; \<open>blk\<close> are the node's blocks by hash.\<close>

definition block_summary :: "node_rpc \<Rightarrow> (nat list \<rightharpoonup> block3) \<Rightarrow> nat list \<Rightarrow> nat \<Rightarrow> nat \<Rightarrow> nat \<Rightarrow> block_sum py" where
  "block_summary node blk script k block_height chain_height =
     rbind (getblockhash node k block_height) (\<lambda>block_hash.
     rbind (case blk block_hash of None \<Rightarrow> Inl CalledProcessError
            | Some b \<Rightarrow> if call_fails node (k + 1) then Inl CalledProcessError else Inr b) (\<lambda>b.
       let txs = b3_tx b;
           (coinbase_value, treasury_value) = (case txs of [] \<Rightarrow> (0, 0) | tx # _ \<Rightarrow> reward_split script (t3_vout tx) 0 0) in
       Inr \<lparr>s_height = block_height, s_hash = block_hash, s_time = b3_time b, s_medianTime = b3_mediantime b,
            s_confirmations = int chain_height - int block_height + 1, s_transactionCount = length txs,
            s_transactions = map (transaction_summary script) (take 8 txs), s_size = b3_size b, s_weight = b3_weight b,
            s_difficulty = b3_difficulty b, s_minerSubsidyEstimate = fmt8 coinbase_value,
            s_treasurySubsidyEstimate = fmt8 treasury_value\<rparr>))"

fun block_summaries :: "node_rpc \<Rightarrow> (nat list \<rightharpoonup> block3) \<Rightarrow> nat list \<Rightarrow> nat \<Rightarrow> nat \<Rightarrow> nat list \<Rightarrow> block_sum list py" where
  "block_summaries node blk script k chain_height [] = Inr []"
| "block_summaries node blk script k chain_height (h # hs) =
     rbind (block_summary node blk script k h chain_height) (\<lambda>b.
     rbind (block_summaries node blk script (k + 2) chain_height hs) (\<lambda>bs. Inr (b # bs)))"

section \<open>The size limit and the report\<close>

text \<open>One round of the loop: the first block from the end that has transactions loses its last one.\<close>

fun pop_first :: "block_sum list \<Rightarrow> block_sum list" where
  "pop_first [] = []"
| "pop_first (b # bs) =
     (if s_transactions b \<noteq> [] then b\<lparr>s_transactions := butlast (s_transactions b)\<rparr> # bs else b # pop_first bs)"

definition pop_transaction :: "block_sum list \<Rightarrow> block_sum list" where
  "pop_transaction bs = rev (pop_first (rev bs))"

definition report_size :: "(jsnum \<Rightarrow> nat list) \<Rightarrow> block_sum list \<Rightarrow> nat" where
  "report_size rep bs = length (dumps rep (PList (map block_json bs)))"

partial_function (option) trim_blocks :: "(jsnum \<Rightarrow> nat list) \<Rightarrow> block_sum list \<Rightarrow> block_sum list option" where
  "trim_blocks rep bs = (if report_size rep bs > 750000 then trim_blocks rep (pop_transaction bs) else Some bs)"

record explorer_cache =
  x_tip :: "nat list"
  x_blocks :: "block_sum list"

definition explorer_payload :: "service_config \<Rightarrow> chain_info \<Rightarrow> nat \<Rightarrow> nat list \<Rightarrow> mining_info \<Rightarrow> nat list \<Rightarrow> block_sum list \<Rightarrow> pydict" where
  "explorer_payload cfg chain peers subversion mining updated bs = dict
     [(''network'', PStr (lit ''slithy-'' @ ci_chain chain)), (''node'', PStr (NODE_NAME cfg)), (''region'', PStr (NODE_REGION cfg)),
      (''chain'', PStr (ci_chain chain)), (''height'', PInt (int (ci_blocks chain))), (''headers'', PInt (int (ci_headers chain))),
      (''bestBlockHash'', PStr (ci_bestblockhash chain)), (''difficulty'', ci_difficulty chain),
      (''initialBlockDownload'', PBool (ci_initialblockdownload chain)), (''peerCount'', PInt (int peers)),
      (''version'', PStr (strip_slashes subversion)),
      (''mining'', PDict (dict [(''active'', mi_active mining),
         (''threads'', PInt (int (mi_threads mining))), (''speed'', PInt (int (mi_speed mining))),
         (''algorithm'', PStr (mi_algorithm mining))])),
      (''blocks'', PList (map block_json bs)), (''updatedAt'', PStr updated)]"

text \<open>
  \<^verbatim>\<open>build_explorer\<close> after its queries, like \<^const>\<open>build_status\<close>: the new cache and the payload; \<open>None\<close> when
  the loop does not end.
\<close>

definition build_explorer :: "node_rpc \<Rightarrow> (nat list \<rightharpoonup> block3) \<Rightarrow> (jsnum \<Rightarrow> nat list) \<Rightarrow> service_config \<Rightarrow> chain_info \<Rightarrow> nat \<Rightarrow>
    nat list \<Rightarrow> mining_info \<Rightarrow> nat list \<Rightarrow> explorer_cache \<Rightarrow> nat \<Rightarrow> (explorer_cache \<times> pydict py) option" where
  "build_explorer node blk rep cfg chain peers subversion mining updated cache k =
     (let height = ci_blocks chain; first_height = height - 24; tip = ci_bestblockhash chain;
          answer = (\<lambda>c. (c, Inr (explorer_payload cfg chain peers subversion mining updated (x_blocks c)))) in
      if tip = x_tip cache then Some (answer cache)
      else
        (case block_summaries node blk (TREASURY_SCRIPT cfg) k height (rev [first_height ..< height + 1]) of
           Inl e \<Rightarrow> Some (cache, Inl e)
         | Inr recent \<Rightarrow>
             (case trim_blocks rep recent of None \<Rightarrow> None
              | Some bs \<Rightarrow>
                  Some (case getblockhash node (k + 2 * (height + 1 - first_height)) height of Inl e \<Rightarrow> (cache, Inl e)
                        | Inr h \<Rightarrow> if h \<noteq> tip then (cache, Inl PyRuntimeError)
                                  else answer \<lparr>x_tip = tip, x_blocks = bs\<rparr>))))"

section \<open>The collector's calls and the node's answers\<close>

text \<open>
  The cache under repeated collections. The tip determines its height: \<open>ht\<close> is the height of a block.
\<close>

inductive explorer_reachable :: "node_rpc \<Rightarrow> (nat list \<rightharpoonup> block3) \<Rightarrow> (jsnum \<Rightarrow> nat list) \<Rightarrow> service_config \<Rightarrow> (nat list \<Rightarrow> nat) \<Rightarrow>
    explorer_cache \<Rightarrow> bool" for node blk rep cfg ht where
  start: "explorer_reachable node blk rep cfg ht \<lparr>x_tip = [], x_blocks = []\<rparr>"
| collect: "explorer_reachable node blk rep cfg ht cache \<Longrightarrow> ci_bestblockhash chain \<noteq> [] \<Longrightarrow>
    ci_blocks chain = ht (ci_bestblockhash chain) \<Longrightarrow>
    build_explorer node blk rep cfg chain peers subversion mining updated cache k = Some (cache', r) \<Longrightarrow>
    explorer_reachable node blk rep cfg ht cache'"

text \<open>What the node's RPC interface documents of its answers, with generous bounds.\<close>

definition coin :: "rat \<Rightarrow> bool" where
  "coin q \<longleftrightarrow> 0 \<le> q \<and> q < 10 ^ 15 - 1"

definition plain :: "nat \<Rightarrow> nat list \<Rightarrow> bool" where
  "plain n s \<longleftrightarrow> length s \<le> n \<and> (\<forall>c \<in> set s. c < 65536)"

definition vin3_ok :: "vin3 \<Rightarrow> bool" where
  "vin3_ok v \<longleftrightarrow> v3_coinbase v \<or>
     (\<exists>t n. v3_txid v = Some t \<and> hex64 (PStr t) \<and> v3_vout v = Some (int n) \<and> n < 2 ^ 53) \<and>
     pred_option (plain 128) (po_address (v3_prevout v)) \<and> pred_option coin (po_value (v3_prevout v))"

definition vout3_ok :: "vout3 \<Rightarrow> bool" where
  "vout3_ok out \<longleftrightarrow> (\<exists>n < 2 ^ 53. o3_n out = int n) \<and> coin (o3_value out) \<and> pred_option (plain 128) (o3_address out) \<and>
     pred_option (plain 80) (o3_type out)"

definition tx3_ok :: "tx3 \<Rightarrow> bool" where
  "tx3_ok tx \<longleftrightarrow> hex64 (PStr (t3_txid tx)) \<and> length (t3_vin tx) < 2 ^ 53 \<and> length (t3_vout tx) < 2 ^ 53 \<and>
     list_all vin3_ok (t3_vin tx) \<and> list_all vout3_ok (t3_vout tx) \<and> coin (sum_list (map o3_value (t3_vout tx)))"

definition block3_ok :: "(jsnum \<Rightarrow> nat list) \<Rightarrow> block3 \<Rightarrow> bool" where
  "block3_ok rep b \<longleftrightarrow> (\<exists>n < 2 ^ 53. b3_time b = int n) \<and> \<bar>b3_mediantime b\<bar> < 10 ^ 20 \<and> \<bar>b3_size b\<bar> < 10 ^ 20 \<and> \<bar>b3_weight b\<bar> < 10 ^ 20 \<and>
     num_finite (b3_difficulty b) \<and> num_le (Fin 0) (b3_difficulty b) \<and> length (rep (b3_difficulty b)) \<le> 32 \<and>
     length (b3_tx b) < 2 ^ 53 \<and> list_all tx3_ok (b3_tx b)"

definition answers_ok :: "node_rpc \<Rightarrow> (nat list \<rightharpoonup> block3) \<Rightarrow> (jsnum \<Rightarrow> nat list) \<Rightarrow> bool" where
  "answers_ok node blk rep \<longleftrightarrow> (\<forall>k. \<forall>h \<in> set (chain_at node k). hex64 (PStr h)) \<and> (\<forall>h b. blk h = Some b \<longrightarrow> block3_ok rep b)"

section \<open>The loop ends\<close>

definition bare :: "block_sum \<Rightarrow> block_sum" where
  "bare b = b\<lparr>s_transactions := []\<rparr>"

definition details :: "block_sum list \<Rightarrow> nat" where
  "details bs = sum_list (map (\<lambda>b. length (s_transactions b)) bs)"

lemma pop_first_bare: "map bare (pop_first bs) = map bare bs"
  by (induction bs) (simp_all add: bare_def)

lemma pop_first_details: "details (pop_first bs) = details bs - 1"
proof (induction bs)
  case (Cons b bs)
  then show ?case by (cases "s_transactions b" rule: rev_cases) (simp_all add: details_def)
qed (simp add: details_def)

lemma details_rev: "details (rev bs) = details bs"
  by (simp add: details_def flip: rev_map)

lemma pop_bare: "map bare (pop_transaction bs) = map bare bs"
  by (simp add: pop_transaction_def pop_first_bare flip: rev_map)

lemma pop_details: "details (pop_transaction bs) = details bs - 1"
  by (simp add: pop_transaction_def details_rev pop_first_details)

lemma no_details: "details bs = 0 \<Longrightarrow> map bare bs = bs"
  by (induction bs) (auto simp: details_def bare_def)

lemma trim_blocks_ends:
  assumes "report_size rep (map bare bs) \<le> 750000"
  shows "\<exists>n. trim_blocks rep bs = Some ((pop_transaction ^^ n) bs) \<and> report_size rep ((pop_transaction ^^ n) bs) \<le> 750000 \<and>
    (\<forall>m < n. 750000 < report_size rep ((pop_transaction ^^ m) bs))"
  using assms
proof (induction "details bs" arbitrary: bs rule: less_induct)
  case less
  show ?case
  proof (cases "750000 < report_size rep bs")
    case False
    then show ?thesis by (intro exI [of _ 0]) (simp add: trim_blocks.simps)
  next
    case True
    have "details bs \<noteq> 0"
    proof
      assume "details bs = 0"
      then show False using no_details [of bs] less.prems True by simp
    qed
    then have "details (pop_transaction bs) < details bs" by (simp add: pop_details)
    then obtain n where n: "trim_blocks rep (pop_transaction bs) = Some ((pop_transaction ^^ n) (pop_transaction bs))"
        "report_size rep ((pop_transaction ^^ n) (pop_transaction bs)) \<le> 750000"
        "\<forall>m < n. 750000 < report_size rep ((pop_transaction ^^ m) (pop_transaction bs))"
      using less.hyps [of "pop_transaction bs"] less.prems by (auto simp: pop_bare)
    have "750000 < report_size rep ((pop_transaction ^^ m) bs)" if "m < Suc n" for m
      using that n(3) True by (cases m) (simp_all add: funpow_swap1)
    then show ?thesis using n(1,2) True by (intro exI [of _ "Suc n"]) (subst trim_blocks.simps, simp add: funpow_swap1)
  qed
qed

section \<open>Sizes\<close>

lemma escape_char_length: "length (escape_char c) \<le> 12"
  by (simp add: escape_char_def utf16_def u_escape_def)

lemma quoted_length: "length (quoted s) \<le> 12 * length s + 2"
proof -
  have "length (concat (map escape_char s)) \<le> 12 * length s"
  proof (induction s)
    case (Cons c s)
    then show ?case using escape_char_length [of c] by simp
  qed simp
  then show ?thesis by (simp add: quoted_def)
qed

lemma joined_length: "length (joined xs) \<le> sum_list (map (\<lambda>x. length x + 2) xs)"
  by (induction xs rule: joined.induct) simp_all

lemma int_length: "\<bar>n\<bar> < 10 ^ 20 \<Longrightarrow> length (dumps rep (PInt n)) \<le> 21"
proof -
  assume "\<bar>n\<bar> < 10 ^ 20"
  then have "nat \<bar>n\<bar> < 10 ^ 20" by (simp add: nat_less_iff)
  then have "length (digits (nat \<bar>n\<bar>)) \<le> 20" using digits_length [of 20 "nat \<bar>n\<bar>"] by simp
  then show ?thesis by (cases "n < 0") simp_all
qed

lemma text_length: "length s \<le> m \<Longrightarrow> length (dumps rep (PStr s)) \<le> 12 * m + 2"
  using quoted_length [of s] by simp

lemma field_length:
  assumes "length (dumps rep v) \<le> m" "length n \<le> 23"
  shows "length (quoted (lit n) @ 58 # 32 # dumps rep v) + 2 \<le> m + 284"
  using assms quoted_length [of "lit n"] by (simp add: lit_def)

definition frame_ok :: "(jsnum \<Rightarrow> nat list) \<Rightarrow> block_sum \<Rightarrow> bool" where
  "frame_ok rep b \<longleftrightarrow> s_height b < 10 ^ 20 \<and> length (s_hash b) \<le> 64 \<and> \<bar>s_time b\<bar> < 10 ^ 20 \<and> \<bar>s_medianTime b\<bar> < 10 ^ 20 \<and>
     \<bar>s_confirmations b\<bar> < 10 ^ 20 \<and> s_transactionCount b < 10 ^ 20 \<and> \<bar>s_size b\<bar> < 10 ^ 20 \<and> \<bar>s_weight b\<bar> < 10 ^ 20 \<and>
     length (rep (s_difficulty b)) \<le> 32 \<and> length (s_minerSubsidyEstimate b) \<le> 64 \<and> length (s_treasurySubsidyEstimate b) \<le> 64"

lemma dict_length:
  assumes "list_all (\<lambda>(n, v). length n \<le> 23 \<and> length (dumps rep v) \<le> 770) ps"
  shows "length (dumps rep (PDict (dict ps))) \<le> 1054 * length ps + 2"
proof -
  have "sum_list (map (\<lambda>x. length x + 2) (map (\<lambda>(k, v). quoted k @ 58 # 32 # dumps rep v) (dict ps))) \<le> 1054 * length ps"
    using assms
  proof (induction ps)
    case (Cons p ps)
    then show ?case using field_length [of rep "snd p" 770 "fst p"] by (cases p) (simp add: dict_def)
  qed (simp add: dict_def)
  then show ?thesis
    using joined_length [of "map (\<lambda>(k, v). quoted k @ 58 # 32 # dumps rep v) (dict ps)"] by simp
qed

lemma bare_size:
  assumes "frame_ok rep b"
  shows "length (dumps rep (block_json (bare b))) \<le> 13000"
proof -
  have i: "length (dumps rep (PInt n)) \<le> 770" if "\<bar>n\<bar> < 10 ^ 20" for n using int_length [OF that, of rep] by simp
  have t: "length (dumps rep (PStr s)) \<le> 770" if "length s \<le> 64" for s using text_length [OF that, of rep] by simp
  have e: "length (dumps rep (PList [])) \<le> 770" by simp
  have "length (dumps rep (block_json (bare b))) \<le> 1054 * 12 + 2"
    unfolding block_json_def
    by (rule order.trans [OF dict_length]) (use assms i t e in \<open>simp_all add: bare_def frame_ok_def del: dumps.simps(3,5,6)\<close>)
  then show ?thesis by simp
qed

lemma bare_report_size:
  assumes "list_all (frame_ok rep) bs" "length bs \<le> 25"
  shows "report_size rep (map bare bs) \<le> 750000"
proof -
  have "sum_list (map (\<lambda>x. length x + 2) (map (\<lambda>b. dumps rep (block_json (bare b))) bs)) \<le> 13002 * length bs"
    using assms(1)
  proof (induction bs)
    case (Cons b bs)
    then show ?case using bare_size [of rep b] by simp
  qed simp
  then have "report_size rep (map bare bs) \<le> 13002 * length bs + 2"
    using joined_length [of "map (\<lambda>b. dumps rep (block_json (bare b))) bs"] by (simp add: report_size_def comp_def)
  then show ?thesis using assms(2) by linarith
qed

section \<open>What the page requires\<close>

lemma get_dict: "get (to_js (PDict (dict ps))) k = Inr (case map_of ps k of None \<Rightarrow> JUndefined | Some v \<Rightarrow> to_js v)"
  using get_to_js [OF dict_keys, of ps k] by (simp only: pget_dict)

lemma truthy_dict: "truthy (to_js (PDict d))"
  by simp

lemma plain_text:
  assumes "plain n s"
  shows "to_js (PStr s) = JStr s" "length s \<le> n"
  using assms utf16_ascii [of s] by (simp_all add: plain_def)

lemma coin_text:
  assumes "coin q"
  shows "to_js (PStr (fmt8 q)) = JStr (fmt8 q)" "re_test amount_re (fmt8 q)"
  using assms utf16_fmt8 fmt8_amount by (simp_all add: coin_def)

lemma hex_text: "hex64 (PStr s) \<Longrightarrow> to_js (PStr s) = JStr s \<and> re_test hash_re s"
  using hex64_plain [of "PStr s"] by auto

lemma page_address: "pred_option (plain 128) a \<Longrightarrow> address (to_js (opt_text a))"
  by (cases a) (simp_all add: opt_text_def address_def plain_text del: to_js.simps(5))

lemma page_count: "n < 2 ^ 53 \<Longrightarrow> integer (to_js (PInt (int n)))"
  by (simp add: to_js_count integer_def del: to_js.simps)

lemmas page_values = page_address page_count

lemma page_input:
  assumes "vin3_ok v"
  shows "valid_input (to_js (input_summary v)) = Inr True"
proof (cases "v3_coinbase v")
  case True
  then show ?thesis
    by (simp add: valid_input_def input_summary_def conds_True get_dict truthy_dict del: to_js.simps(7))
next
  case False
  then obtain t n where v: "v3_txid v = Some t" "hex64 (PStr t)" "v3_vout v = Some (int n)" "n < 2 ^ 53"
    "pred_option (plain 128) (po_address (v3_prevout v))" "pred_option coin (po_value (v3_prevout v))"
    using assms by (auto simp: vin3_ok_def)
  let ?val = "case po_value (v3_prevout v) of None \<Rightarrow> PNone | Some x \<Rightarrow> PStr (fmt8 x)"
  have h: "hash (to_js (opt_text (v3_txid v)))" using hex_text [OF v(2)] v(1) by (simp add: hash_def opt_text_def)
  have val: "to_js ?val = JNull \<or> amount (to_js ?val)"
    using v(6) coin_text by (cases "po_value (v3_prevout v)") (simp_all add: amount_def)
  show ?thesis
    using False h val page_address [OF v(5)] page_count [OF v(4)] v(3)
    by (simp add: valid_input_def input_summary_def js_and_True js_or_True has_def get_dict truthy_dict Let_def del: to_js.simps)
qed

lemma page_output:
  assumes "vout3_ok out"
  shows "valid_output (to_js (output_summary script out)) = Inr True"
proof -
  obtain n where n: "n < 2 ^ 53" "o3_n out = int n" using assms by (auto simp: vout3_ok_def)
  have v: "amount (to_js (PStr (fmt8 (o3_value out))))" using coin_text assms by (simp add: vout3_ok_def amount_def)
  have a: "address (to_js (opt_text (o3_address out)))" using assms by (intro page_address) (simp add: vout3_ok_def)
  let ?t = "case o3_type out of None \<Rightarrow> lit ''unknown'' | Some t \<Rightarrow> t"
  have "plain 80 (lit ''unknown'')" by (simp add: plain_def lit_def)
  then have "plain 80 ?t" using assms by (cases "o3_type out") (simp_all add: vout3_ok_def)
  then have t: "case to_js (PStr ?t) of JStr s \<Rightarrow> length s \<le> 80 | _ \<Rightarrow> False" by (simp add: plain_text del: to_js.simps)
  show ?thesis
    using v a t page_count [OF n(1)] n(2)
    by (simp add: valid_output_def output_summary_def conds_True get_dict truthy_dict del: to_js.simps(3,5,7))
qed

lemma page_list:
  assumes "get v k = Inr (to_js (PList xs))" "length xs \<le> n"
  shows "has v k (array_upto n) = Inr True"
  using assms by (simp add: has_def array_upto_def)

lemma page_every:
  assumes "get v k = Inr (to_js (PList xs))" "\<And>x. x \<in> set xs \<Longrightarrow> f (to_js x) = Inr True"
  shows "every_in f v k = Inr True"
  using assms by (simp add: every_in_def js_every_True)

lemma page_length:
  assumes "get v k = Inr (to_js (PInt (int n)))" "get v k' = Inr (to_js (PList xs))" "n < 2 ^ 53" "length xs \<le> n"
  shows "at_least_length v k k' = Inr True"
proof -
  have "val_le (JNum (Fin (of_nat (length xs)))) (ex_num (int n))" using assms(4) by (simp add: ex_num_def)
  then show ?thesis using assms(1-3) by (simp add: at_least_length_def has_def to_js_count del: to_js.simps(3))
qed

lemma page_tx:
  assumes "tx3_ok tx"
  shows "valid_tx (to_js (transaction_summary script tx)) = Inr True"
proof -
  let ?v = "to_js (transaction_summary script tx)"
  note g = transaction_summary_def get_dict
  have ok: "hex64 (PStr (t3_txid tx))" "length (t3_vin tx) < 2 ^ 53" "length (t3_vout tx) < 2 ^ 53"
    "list_all vin3_ok (t3_vin tx)" "list_all vout3_ok (t3_vout tx)" using assms by (simp_all add: tx3_ok_def)
  have i: "get ?v ''inputs'' = Inr (to_js (PList (map input_summary (take 16 (t3_vin tx)))))"
    "get ?v ''outputs'' = Inr (to_js (PList (map (output_summary script) (take 16 (t3_vout tx)))))"
    "get ?v ''inputCount'' = Inr (to_js (PInt (int (length (t3_vin tx)))))" "get ?v ''outputCount'' = Inr (to_js (PInt (int (length (t3_vout tx)))))"
    "get ?v ''coinbase'' = Inr (JBool (list_ex v3_coinbase (t3_vin tx)))"
    by (simp_all add: g del: to_js.simps(3,6,7))
  have t: "has ?v ''txid'' hash = Inr True" using hex_text [OF ok(1)] by (simp add: has_def g hash_def del: to_js.simps(7))
  have c: "has ?v ''inputCount'' integer = Inr True" "has ?v ''outputCount'' integer = Inr True" "has ?v ''coinbase'' is_boolean = Inr True"
    using page_count [OF ok(2)] page_count [OF ok(3)] i(3-5) by (simp_all add: has_def del: to_js.simps)
  have l: "has ?v ''inputs'' (array_upto 16) = Inr True" "has ?v ''outputs'' (array_upto 16) = Inr True"
    "at_least_length ?v ''inputCount'' ''inputs'' = Inr True" "at_least_length ?v ''outputCount'' ''outputs'' = Inr True"
    by (rule page_list [OF i(1)] page_list [OF i(2)] page_length [OF i(3,1) ok(2)] page_length [OF i(4,2) ok(3)], simp)+
  have "every_in valid_input ?v ''inputs'' = Inr True"
    by (rule page_every [OF i(1)]) (use ok(4) page_input in \<open>auto simp: list_all_iff dest: in_set_takeD\<close>)
  moreover have "every_in valid_output ?v ''outputs'' = Inr True"
    by (rule page_every [OF i(2)]) (use ok(5) page_output in \<open>auto simp: list_all_iff dest: in_set_takeD\<close>)
  moreover have "truthy ?v" unfolding transaction_summary_def by (rule truthy_dict)
  ultimately show ?thesis using t c l by (simp add: valid_tx_def js_and_True)
qed

text \<open>A block summary that the page accepts, for a report of the given height.\<close>

definition sum_ok :: "nat \<Rightarrow> block_sum \<Rightarrow> bool" where
  "sum_ok height b \<longleftrightarrow> s_height b \<le> height \<and> hex64 (PStr (s_hash b)) \<and> (\<exists>n < 2 ^ 53. s_time b = int n) \<and>
     (\<exists>n < 2 ^ 53. s_confirmations b = int n) \<and> s_transactionCount b < 2 ^ 53 \<and> num_finite (s_difficulty b) \<and>
     num_le (Fin 0) (s_difficulty b) \<and> (\<exists>q. coin q \<and> s_minerSubsidyEstimate b = fmt8 q) \<and>
     (\<exists>q. coin q \<and> s_treasurySubsidyEstimate b = fmt8 q) \<and> length (s_transactions b) \<le> 8 \<and>
     (\<forall>t \<in> set (s_transactions b). \<exists>script tx. tx3_ok tx \<and> t = transaction_summary script tx)"

lemma page_block:
  assumes "sum_ok height b" "height < 2 ^ 53"
  shows "valid_block (ex_num (int height)) (to_js (block_json b)) = Inr True"
proof -
  let ?v = "to_js (block_json b)"
  note g = block_json_def get_dict
  obtain t c q q' where ok: "s_height b \<le> height" "hex64 (PStr (s_hash b))" "t < 2 ^ 53" "s_time b = int t" "c < 2 ^ 53" "s_confirmations b = int c"
    "s_transactionCount b < 2 ^ 53" "num_finite (s_difficulty b)" "num_le (Fin 0) (s_difficulty b)" "coin q" "s_minerSubsidyEstimate b = fmt8 q"
    "coin q'" "s_treasurySubsidyEstimate b = fmt8 q'" "length (s_transactions b) \<le> 8"
    "\<And>t. t \<in> set (s_transactions b) \<Longrightarrow> \<exists>script tx. tx3_ok tx \<and> t = transaction_summary script tx"
    using assms(1) unfolding sum_ok_def by blast
  have hb: "s_height b < 2 ^ 53" using ok(1) assms(2) by simp
  have gt: "get ?v ''transactions'' = Inr (to_js (PList (s_transactions b)))" by (simp add: g del: to_js.simps(6,7))
  have h: "has ?v ''height'' integer = Inr True" "has ?v ''height'' (\<lambda>h. val_le h (ex_num (int height))) = Inr True"
    using page_count [OF hb] ok(1) to_js_count [OF hb] by (simp_all add: has_def g del: to_js.simps)
  have n: "has ?v ''time'' integer = Inr True" "has ?v ''confirmations'' integer = Inr True" "has ?v ''transactionCount'' integer = Inr True"
    using page_count [OF ok(3)] page_count [OF ok(5)] page_count [OF ok(7)] by (simp_all add: has_def g ok(4,6) del: to_js.simps)
  have d: "has ?v ''difficulty'' isFinite = Inr True" "has ?v ''difficulty'' (val_le (JNum (Fin 0))) = Inr True"
    using ok(8,9) by (simp_all add: has_def g del: to_js.simps(7))
  have a: "has ?v ''hash'' hash = Inr True" "has ?v ''minerSubsidyEstimate'' amount = Inr True" "has ?v ''treasurySubsidyEstimate'' amount = Inr True"
    using hex_text [OF ok(2)] coin_text [OF ok(10)] coin_text [OF ok(12)]
    by (simp_all add: has_def g hash_def amount_def ok(11,13) del: to_js.simps)
  have "has ?v ''transactions'' (array_upto 8) = Inr True" by (rule page_list [OF gt ok(14)])
  moreover have "every_in valid_tx ?v ''transactions'' = Inr True"
    by (rule page_every [OF gt]) (use ok(15) page_tx in blast)
  moreover have "truthy ?v" unfolding block_json_def by (rule truthy_dict)
  ultimately show ?thesis using h n d a by (simp add: valid_block_def js_and_True)
qed

section \<open>From the node's answers to the report\<close>

lemma reward_split_bounds:
  assumes "reward_split script outs x y = (x', y')" "list_all vout3_ok outs"
  shows "x \<le> x'" "y \<le> y'" "x' + y' = x + y + sum_list (map o3_value outs)"
proof -
  have "x \<le> x' \<and> y \<le> y' \<and> x' + y' = x + y + sum_list (map o3_value outs)" using assms
  proof (induction outs arbitrary: x y)
    case (Cons out outs)
    have "0 \<le> o3_value out" using Cons.prems(2) by (simp add: vout3_ok_def coin_def)
    then show ?case using Cons.prems Cons.IH by (fastforce split: if_splits)
  qed simp
  then show "x \<le> x'" "y \<le> y'" "x' + y' = x + y + sum_list (map o3_value outs)" by blast+
qed

lemma block_rewards:
  assumes "list_all tx3_ok txs" "(case txs of [] \<Rightarrow> (0, 0) | tx # _ \<Rightarrow> reward_split script (t3_vout tx) 0 0) = (x, y)"
  shows "coin x" "coin y"
proof -
  have "coin x \<and> coin y"
  proof (cases txs)
    case Nil
    then show ?thesis using assms(2) by (auto simp: coin_def)
  next
    case (Cons tx rest)
    then have t: "list_all vout3_ok (t3_vout tx)" "coin (sum_list (map o3_value (t3_vout tx)))" "reward_split script (t3_vout tx) 0 0 = (x, y)"
      using assms by (simp_all add: tx3_ok_def)
    show ?thesis using reward_split_bounds [OF t(3,1)] t(2) unfolding coin_def by linarith
  qed
  then show "coin x" "coin y" by blast+
qed

lemma getblockhash_hex:
  assumes "answers_ok node blk rep" "getblockhash node k h = Inr x"
  shows "hex64 (PStr x)"
proof -
  have "h < length (chain_at node k)" "x = chain_at node k ! h" using assms(2) by (auto simp: getblockhash_def split: if_splits)
  then have "x \<in> set (chain_at node k)" by simp
  then show ?thesis using assms(1) by (auto simp: answers_ok_def)
qed

lemma block_summary_ok:
  assumes "answers_ok node blk rep" "block_summary node blk script k h height = Inr b" "h \<le> height" "height \<le> h + 24" "height < 2 ^ 53"
  shows "sum_ok height b" "frame_ok rep b"
proof -
  obtain x where x: "getblockhash node k h = Inr x" and b0: "rbind (case blk x of None \<Rightarrow> Inl CalledProcessError
            | Some b \<Rightarrow> if call_fails node (k + 1) then Inl CalledProcessError else Inr b) (\<lambda>b.
       let txs = b3_tx b;
           (coinbase_value, treasury_value) = (case txs of [] \<Rightarrow> (0, 0) | tx # _ \<Rightarrow> reward_split script (t3_vout tx) 0 0) in
       Inr \<lparr>s_height = h, s_hash = x, s_time = b3_time b, s_medianTime = b3_mediantime b,
            s_confirmations = int height - int h + 1, s_transactionCount = length txs,
            s_transactions = map (transaction_summary script) (take 8 txs), s_size = b3_size b, s_weight = b3_weight b,
            s_difficulty = b3_difficulty b, s_minerSubsidyEstimate = fmt8 coinbase_value,
            s_treasurySubsidyEstimate = fmt8 treasury_value\<rparr>) = Inr b"
    using assms(2) unfolding block_summary_def rbind_Inr_iff by blast
  then obtain c where c: "blk x = Some c" by (cases "blk x") simp_all
  have ok: "block3_ok rep c" using assms(1) c by (simp add: answers_ok_def)
  obtain p q where pq: "(case b3_tx c of [] \<Rightarrow> (0, 0) | tx # _ \<Rightarrow> reward_split script (t3_vout tx) 0 0) = (p, q)" by fastforce
  have coins: "coin p" "coin q" using block_rewards [OF _ pq] ok by (simp_all add: block3_ok_def)
  have b: "b = \<lparr>s_height = h, s_hash = x, s_time = b3_time c, s_medianTime = b3_mediantime c,
            s_confirmations = int height - int h + 1, s_transactionCount = length (b3_tx c),
            s_transactions = map (transaction_summary script) (take 8 (b3_tx c)), s_size = b3_size c, s_weight = b3_weight c,
            s_difficulty = b3_difficulty c, s_minerSubsidyEstimate = fmt8 p, s_treasurySubsidyEstimate = fmt8 q\<rparr>"
    using b0 c pq by (simp add: Let_def split: if_splits)
  obtain t where t: "t < 2 ^ 53" "b3_time c = int t" using ok by (auto simp: block3_ok_def)
  have conf: "int height - int h + 1 = int (height - h + 1)" "height - h + 1 < 2 ^ 53" using assms(3,4) by simp_all
  have txs: "\<forall>t \<in> set (map (transaction_summary script) (take 8 (b3_tx c))). \<exists>script tx. tx3_ok tx \<and> t = transaction_summary script tx"
    using ok by (auto simp: block3_ok_def list_all_iff dest: in_set_takeD)
  have d: "num_finite (b3_difficulty c)" "num_le (Fin 0) (b3_difficulty c)" "length (b3_tx c) < 2 ^ 53" using ok by (simp_all add: block3_ok_def)
  note hx = getblockhash_hex [OF assms(1) x]
  have ex: "\<exists>n < 2 ^ 53. b3_time c = int n" "\<exists>n < 2 ^ 53. int height - int h + 1 = int n" "\<exists>r. coin r \<and> fmt8 p = fmt8 r"
    "\<exists>r. coin r \<and> fmt8 q = fmt8 r" using t conf coins by blast+
  have len8: "length (map (transaction_summary script) (take 8 (b3_tx c))) \<le> 8" by simp
  show "sum_ok height b"
    unfolding sum_ok_def b block_sum.select_convs
    by (intro conjI) (fact assms(3), fact hx, fact ex(1), fact ex(2), fact d(3), fact d(1), fact d(2), fact ex(3), fact ex(4), fact len8, fact txs)
  have len: "length (fmt8 r) \<le> 64" if "coin r" for r using coin_text(2) [OF that] unfolding amount_shape by auto
  have lx: "length x = 64" using hx by (simp add: hex64_shape)
  have r: "\<bar>b3_mediantime c\<bar> < 10 ^ 20" "\<bar>b3_size c\<bar> < 10 ^ 20" "\<bar>b3_weight c\<bar> < 10 ^ 20" "length (rep (b3_difficulty c)) \<le> 32"
    using ok unfolding block3_ok_def by blast+
  have big: "(2 :: nat) ^ 53 \<le> 10 ^ 20" by simp
  have n: "h < 10 ^ 20" "length (b3_tx c) < 10 ^ 20" "t < 10 ^ 20"
    using le_less_trans [OF assms(3,5)] d(3) t(1) order.strict_trans2 [OF _ big] by blast+
  have i: "\<bar>int height - int h + 1\<bar> < 10 ^ 20" using assms(3,4) by simp
  have "int t < int (10 ^ 20)" using n(3) by (simp only: of_nat_less_iff)
  then have j: "\<bar>b3_time c\<bar> < 10 ^ 20" by (simp add: t(2))
  show "frame_ok rep b"
    unfolding frame_ok_def b block_sum.select_convs
    by (intro conjI) (fact n(1), simp add: lx, fact j, fact r(1), fact i, fact n(2), fact r(2), fact r(3), fact r(4),
      fact len [OF coins(1)], fact len [OF coins(2)])
qed

lemma block_summaries_ok:
  assumes "answers_ok node blk rep" "block_summaries node blk script k height hs = Inr bs" "height < 2 ^ 53"
    "\<forall>h \<in> set hs. h \<le> height \<and> height \<le> h + 24"
  shows "list_all (sum_ok height) bs \<and> list_all (frame_ok rep) bs \<and> length bs = length hs"
  using assms(2,4)
proof (induction hs arbitrary: k bs)
  case (Cons h hs)
  then obtain b rest where b: "block_summary node blk script k h height = Inr b" "block_summaries node blk script (k + 2) height hs = Inr rest"
    "bs = b # rest" by (auto simp: rbind_Inr_iff)
  then show ?case using Cons.IH [OF b(2)] Cons.prems(2) block_summary_ok [OF assms(1) b(1) _ _ assms(3)] by simp
qed simp

lemma pop_sum_ok: "list_all (sum_ok height) bs \<Longrightarrow> list_all (sum_ok height) (pop_transaction bs)"
proof -
  have p: "list_all (sum_ok height) (pop_first bs)" if "list_all (sum_ok height) bs" for bs
    using that by (induction bs) (auto simp: sum_ok_def dest: in_set_butlastD)
  show "list_all (sum_ok height) bs \<Longrightarrow> list_all (sum_ok height) (pop_transaction bs)"
    using p [of "rev bs"] by (simp add: pop_transaction_def)
qed

lemma pop_length: "length (pop_transaction bs) = length bs"
  using arg_cong [OF pop_bare [of bs], of length] by simp

lemma pops_keep:
  "list_all (sum_ok height) bs \<Longrightarrow> list_all (sum_ok height) ((pop_transaction ^^ n) bs)" "length ((pop_transaction ^^ n) bs) = length bs"
  by (induction n) (simp_all add: pop_sum_ok pop_length)

section \<open>The cache\<close>

definition cache_ok :: "(jsnum \<Rightarrow> nat list) \<Rightarrow> (nat list \<Rightarrow> nat) \<Rightarrow> explorer_cache \<Rightarrow> bool" where
  "cache_ok rep ht c \<longleftrightarrow> report_size rep (x_blocks c) \<le> 750000 \<and> length (x_blocks c) \<le> 25 \<and>
     (x_blocks c = [] \<or> list_all (sum_ok (ht (x_tip c))) (x_blocks c))"

lemma build_explorer_cases:
  assumes "answers_ok node blk rep" "ci_blocks chain < 2 ^ 53"
  obtains (cached) "ci_bestblockhash chain = x_tip cache"
      "build_explorer node blk rep cfg chain peers subversion mining updated cache k =
         Some (cache, Inr (explorer_payload cfg chain peers subversion mining updated (x_blocks cache)))"
  | (failed) e where "ci_bestblockhash chain \<noteq> x_tip cache"
      "build_explorer node blk rep cfg chain peers subversion mining updated cache k = Some (cache, Inl e)"
  | (collected) recent n where "ci_bestblockhash chain \<noteq> x_tip cache"
      "block_summaries node blk (TREASURY_SCRIPT cfg) k (ci_blocks chain) (rev [ci_blocks chain - 24 ..< ci_blocks chain + 1]) = Inr recent"
      "list_all (sum_ok (ci_blocks chain)) recent" "length recent \<le> 25"
      "report_size rep ((pop_transaction ^^ n) recent) \<le> 750000" "\<forall>m < n. 750000 < report_size rep ((pop_transaction ^^ m) recent)"
      "build_explorer node blk rep cfg chain peers subversion mining updated cache k =
         Some (\<lparr>x_tip = ci_bestblockhash chain, x_blocks = (pop_transaction ^^ n) recent\<rparr>,
           Inr (explorer_payload cfg chain peers subversion mining updated ((pop_transaction ^^ n) recent)))"
proof (cases "ci_bestblockhash chain = x_tip cache")
  case True
  then show ?thesis by (intro cached) (simp_all add: build_explorer_def Let_def)
next
  case False
  let ?hs = "rev [ci_blocks chain - 24 ..< ci_blocks chain + 1]"
  show ?thesis
  proof (cases "block_summaries node blk (TREASURY_SCRIPT cfg) k (ci_blocks chain) ?hs")
    case (Inl e)
    then show ?thesis using False by (intro failed [of e]) (simp_all add: build_explorer_def Let_def)
  next
    case (Inr recent)
    have "\<forall>h \<in> set ?hs. h \<le> ci_blocks chain \<and> ci_blocks chain \<le> h + 24" by auto
    then have ok: "list_all (sum_ok (ci_blocks chain)) recent" "list_all (frame_ok rep) recent" "length recent \<le> 25"
      using block_summaries_ok [OF assms(1) Inr assms(2)] by simp_all
    obtain n where n: "trim_blocks rep recent = Some ((pop_transaction ^^ n) recent)" "report_size rep ((pop_transaction ^^ n) recent) \<le> 750000"
      "\<forall>m < n. 750000 < report_size rep ((pop_transaction ^^ m) recent)"
      using trim_blocks_ends [OF bare_report_size [OF ok(2,3)]] by blast
    note b = build_explorer_def Let_def
    show ?thesis
    proof (cases "getblockhash node (k + 2 * (ci_blocks chain + 1 - (ci_blocks chain - 24))) (ci_blocks chain) = Inr (ci_bestblockhash chain)")
      case True
      then show ?thesis using False Inr n ok by (intro collected [of recent n]) (simp_all add: b)
    next
      case other: False
      then have "\<exists>e. build_explorer node blk rep cfg chain peers subversion mining updated cache k = Some (cache, Inl e)"
        using False Inr n(1) by (auto simp: b split: sum.split)
      then show ?thesis using False failed by blast
    qed
  qed
qed

lemma explorer_cache_ok:
  assumes "explorer_reachable node blk rep cfg ht cache" "answers_ok node blk rep" "\<And>h. ht h < 2 ^ 53"
  shows "cache_ok rep ht cache"
  using assms(1)
proof induction
  case start
  show ?case by (simp add: cache_ok_def report_size_def)
next
  case (collect cache chain peers subversion mining updated k cache' r)
  have h: "ci_blocks chain < 2 ^ 53" using collect.hyps(3) assms(3) by simp
  show ?case
  proof (cases rule: build_explorer_cases [OF assms(2) h, of cache cfg peers subversion mining updated k, case_names cached failed collected])
    case (collected recent n)
    then show ?thesis using collect pops_keep(1) [OF collected(3), of n] by (simp add: cache_ok_def pops_keep(2))
  qed (use collect in simp_all)
qed

definition ex_genesis :: "nat list" where
  "ex_genesis = replicate 64 48"

definition ex_block3 :: block3 where
  "ex_block3 = \<lparr>b3_time = 5, b3_mediantime = 5, b3_size = 200, b3_weight = 800, b3_difficulty = Fin 1,
     b3_tx = [\<lparr>t3_txid = ex_genesis,
        t3_vin = [\<lparr>v3_coinbase = True, v3_txid = None, v3_vout = None, v3_prevout = \<lparr>po_address = None, po_value = None\<rparr>\<rparr>],
        t3_vout = [\<lparr>o3_n = 0, o3_value = 9, o3_hex = None, o3_address = None, o3_type = None\<rparr>]\<rparr>]\<rparr>"

definition ex_explored :: node_rpc where
  "ex_explored = \<lparr>chain_at = \<lambda>_. [ex_genesis], block_of = \<lambda>_. None, call_fails = \<lambda>_. False, deadline_passed = \<lambda>_. False\<rparr>"

definition ex_config :: service_config where
  "ex_config = \<lparr>NODE_NAME = [], NODE_REGION = [], TREASURY_SCRIPT = [], TREASURY_ADDRESS = []\<rparr>"

definition ex_info :: chain_info where
  "ex_info = \<lparr>ci_chain = lit ''test'', ci_blocks = 0, ci_headers = 0, ci_bestblockhash = ex_genesis, ci_difficulty = PFloat (Fin 1),
     ci_initialblockdownload = False\<rparr>"

definition ex_miner :: mining_info where
  "ex_miner = \<lparr>mi_active = PNone, mi_threads = 0, mi_speed = 0, mi_algorithm = []\<rparr>"

lemma ex_answers: "answers_ok ex_explored (\<lambda>_. Some ex_block3) (\<lambda>_. lit ''1.0'')"
proof -
  have h: "hex64 (PStr ex_genesis)" by (simp add: hex64_shape ex_genesis_def list_all_iff is_hex_def is_digit_def)
  have l: "length (lit ''1.0'') \<le> 32" by (simp add: lit_def)
  have t: "\<exists>n < 2 ^ 53. (5 :: int) = int n" "\<exists>n < 2 ^ 53. (0 :: int) = int n" by (rule exI [of _ 5], simp) (rule exI [of _ 0], simp)
  show ?thesis using h l t
    by (simp add: answers_ok_def ex_explored_def block3_ok_def ex_block3_def tx3_ok_def vin3_ok_def vout3_ok_def coin_def)
qed

lemma ex_run:
  "\<exists>cache payload. build_explorer ex_explored (\<lambda>_. Some ex_block3) (\<lambda>_. lit ''1.0'') ex_config ex_info 2 [] ex_miner
     (lit ''2026-09-09T00:00:00Z'') \<lparr>x_tip = [], x_blocks = []\<rparr> 0 = Some (cache, Inr payload)"
proof -
  have s: "\<exists>b. block_summaries ex_explored (\<lambda>_. Some ex_block3) [] 0 0 [0] = Inr b"
    by (simp add: block_summary_def getblockhash_def ex_explored_def ex_block3_def Let_def)
  then obtain recent where r: "block_summaries ex_explored (\<lambda>_. Some ex_block3) [] 0 0 [0] = Inr recent" ..
  have "list_all (frame_ok (\<lambda>_. lit ''1.0'')) recent" "length recent \<le> 25"
    using block_summaries_ok [OF ex_answers r] by simp_all
  then obtain bs where "trim_blocks (\<lambda>_. lit ''1.0'') recent = Some bs" using trim_blocks_ends [OF bare_report_size] by blast
  moreover have "ex_genesis \<noteq> []" by (simp add: ex_genesis_def)
  ultimately show ?thesis using r
    by (simp add: build_explorer_def ex_info_def ex_config_def Let_def del: block_summaries.simps) (simp add: getblockhash_def ex_explored_def)
qed

text \<open>
  C14. Collecting the explorer report always ends. From every cache the collector can reach, with a node whose
  answers are as documented, the loop that shortens the report terminates. The published blocks take at
  most 750000 bytes; a failed collection leaves the cache as it was; and a new list of blocks is what was
  collected with as few of the oldest transactions removed as the limit requires.
\<close>

theorem explorer_collection_ends:
  assumes "explorer_reachable node blk rep cfg ht cache" "answers_ok node blk rep" "\<And>h. ht h < 2 ^ 53"
    "ci_blocks chain = ht (ci_bestblockhash chain)"
  shows "\<exists>cache' r. build_explorer node blk rep cfg chain peers subversion mining updated cache k = Some (cache', r) \<and>
    report_size rep (x_blocks cache') \<le> 750000 \<and> ((\<exists>e. r = Inl e) \<longrightarrow> cache' = cache) \<and>
    (cache' \<noteq> cache \<longrightarrow> (\<exists>recent n. x_blocks cache' = (pop_transaction ^^ n) recent \<and>
       block_summaries node blk (TREASURY_SCRIPT cfg) k (ci_blocks chain) (rev [ci_blocks chain - 24 ..< ci_blocks chain + 1]) = Inr recent \<and>
       (\<forall>m < n. 750000 < report_size rep ((pop_transaction ^^ m) recent))))"
proof -
  have h: "ci_blocks chain < 2 ^ 53" using assms(3,4) by simp
  have c: "report_size rep (x_blocks cache) \<le> 750000" using explorer_cache_ok [OF assms(1-3)] by (simp add: cache_ok_def)
  show ?thesis
  proof (cases rule: build_explorer_cases [OF assms(2) h, of cache cfg peers subversion mining updated k, case_names cached failed collected])
    case (collected recent n)
    show ?thesis unfolding collected(7) using collected(2,5,6) by auto
  qed (use c in simp_all)
qed

theorem explorer_collection_ends_witness:
  "\<exists>cache r. build_explorer ex_explored (\<lambda>_. Some ex_block3) (\<lambda>_. lit ''1.0'') ex_config ex_info 2 [] ex_miner
     (lit ''2026-09-09T00:00:00Z'') \<lparr>x_tip = [], x_blocks = []\<rparr> 0 = Some (cache, r) \<and>
   report_size (\<lambda>_. lit ''1.0'') (x_blocks cache) \<le> 750000"
proof -
  have "ci_blocks ex_info = 0" by (simp add: ex_info_def)
  then show ?thesis
    using explorer_collection_ends [OF explorer_reachable.start [of _ _ _ _ "\<lambda>_. 0"] ex_answers, of ex_info ex_config 2 "[]" ex_miner
        "lit ''2026-09-09T00:00:00Z''" 0] by auto
qed

text \<open>
  C3. The explorer page accepts what the collector publishes. When a collection succeeds on the test chain, from any
  cache the collector can reach and with a node whose answers are as documented, then from 30 seconds before
  to two minutes after the report's stamp the page's validate accepts the report, also when the blocks come
  from the cache.
\<close>

theorem explorer_report_is_accepted:
  assumes "explorer_reachable node blk rep cfg ht cache" "answers_ok node blk rep" "\<And>h. ht h < 2 ^ 53"
    "ci_blocks chain = ht (ci_bestblockhash chain)" "hex64 (PStr (ci_bestblockhash chain))" "ci_chain chain = lit ''test''" "peers < 2 ^ 53"
    "build_explorer node blk rep cfg chain peers subversion mining updated cache k = Some (cache', Inr payload)"
    "iso_utc updated = Some t" "t - 30000 \<le> now" "now \<le> t + 120000"
  shows "validate env (to_js (PDict payload)) (Fin (of_int now)) = Inr True"
proof -
  have h: "ci_blocks chain < 2 ^ 53" using assms(3,4) by simp
  obtain bs where p: "payload = explorer_payload cfg chain peers subversion mining updated bs"
    and bs: "length bs \<le> 25" "list_all (sum_ok (ci_blocks chain)) bs"
  proof (cases rule: build_explorer_cases [OF assms(2) h, of cache cfg peers subversion mining updated k, case_names cached failed collected])
    case cached
    then show thesis using that assms(4,8) explorer_cache_ok [OF assms(1-3)] by (auto simp: cache_ok_def)
  next
    case (failed e)
    then show thesis using assms(8) by simp
  next
    case (collected recent n)
    then show thesis using that [of "(pop_transaction ^^ n) recent"] assms(8) pops_keep(1) [OF collected(3), of n] by (simp add: pops_keep(2))
  qed
  let ?v = "to_js (PDict payload)"
  note g = p explorer_payload_def get_dict
  have u: "get ?v ''updatedAt'' = Inr (JStr updated)" using iso_utc_plain(1) [OF assms(9)] by (simp add: g del: to_js.simps(7))
  have b: "get ?v ''blocks'' = Inr (to_js (PList (map block_json bs)))" "get ?v ''height'' = Inr (ex_num (int (ci_blocks chain)))"
    using to_js_count [OF h] by (simp_all add: g del: to_js.simps)
  have n: "has ?v ''height'' integer = Inr True" "has ?v ''peerCount'' integer = Inr True"
    using page_count [OF h] page_count [OF assms(7)] by (simp_all add: has_def g del: to_js.simps)
  have c: "has ?v ''chain'' (\<lambda>x. x = JStr (lit ''test'')) = Inr True" "has ?v ''bestBlockHash'' hash = Inr True"
    using hex_text [OF assms(5)] assms(6) by (simp_all add: has_def g hash_def del: to_js.simps(7))
  have "every_in (valid_block (ex_num (int (ci_blocks chain)))) ?v ''blocks'' = Inr True"
    by (rule page_every [OF b(1)]) (use bs(2) page_block [OF _ h] in \<open>auto simp: list_all_iff\<close>)
  moreover have "has ?v ''blocks'' (array_upto 25) = Inr True" by (rule page_list [OF b(1)]) (simp add: bs(1))
  moreover have "fresh env ?v (Fin (of_int now)) = Inr True" using fresh_iso [OF u assms(9)] assms(10,11) by simp
  ultimately show ?thesis using n c b(2) truthy_dict [of payload] by (simp add: validate_def js_and_True del: to_js.simps)
qed

theorem explorer_report_is_accepted_witness:
  "\<exists>cache payload. build_explorer ex_explored (\<lambda>_. Some ex_block3) (\<lambda>_. lit ''1.0'') ex_config ex_info 2 [] ex_miner
     (lit ''2026-09-09T00:00:00Z'') \<lparr>x_tip = [], x_blocks = []\<rparr> 0 = Some (cache, Inr payload) \<and>
   validate ex_env (to_js (PDict payload)) (Fin (of_int 1788912060000)) = Inr True"
proof -
  obtain cache payload where run: "build_explorer ex_explored (\<lambda>_. Some ex_block3) (\<lambda>_. lit ''1.0'') ex_config ex_info 2 [] ex_miner
     (lit ''2026-09-09T00:00:00Z'') \<lparr>x_tip = [], x_blocks = []\<rparr> 0 = Some (cache, Inr payload)" using ex_run by blast
  have i: "ci_blocks ex_info = 0" "hex64 (PStr (ci_bestblockhash ex_info))" "ci_chain ex_info = lit ''test''"
    by (simp_all add: ex_info_def hex64_shape ex_genesis_def list_all_iff is_hex_def is_digit_def)
  show ?thesis
    using run explorer_report_is_accepted [OF explorer_reachable.start [of _ _ _ _ "\<lambda>_. 0"] ex_answers _ _ i(2,3) _ run ex_stamp,
        of 1788912060000 ex_env] i(1) by (auto simp del: to_js.simps)
qed

end
