(* ===== verification/Status_Server.thy ===== *)
theory Status_Server
  imports Explorer_Service
begin

text \<open>
  The collector loop and the HTTP server of \<^verbatim>\<open>src/services/slithy-node-status-server.py\<close>: the cache of the
  last snapshots, the answers of \<^verbatim>\<open>do_GET\<close>, and the limit on request threads. Times are those of
  \<^verbatim>\<open>time.monotonic\<close>, in seconds.
\<close>

section \<open>Model\<close>

record server =
  snapshots :: "string \<rightharpoonup> rat \<times> pydict"
  slots :: nat
  threads :: nat

definition server_start :: server where
  "server_start = \<lparr>snapshots = Map.empty, slots = 16, threads = 0\<rparr>"

text \<open>One builder of the loop in \<^verbatim>\<open>collect_snapshots\<close>: a failure is printed, and the last snapshot stays.\<close>

definition collect_snapshot :: "string \<Rightarrow> rat \<Rightarrow> pydict py \<Rightarrow> server \<Rightarrow> server" where
  "collect_snapshot name now result s =
     (case result of Inl _ \<Rightarrow> s | Inr snap \<Rightarrow> s\<lparr>snapshots := (snapshots s)(name \<mapsto> (now, snap))\<rparr>)"

text \<open>
  \<^verbatim>\<open>process_request\<close> for a connection: closed when no slot is free; otherwise a thread is started,
  or the slot is given back when that fails. \<^verbatim>\<open>process_request_thread\<close> gives the slot back at its end.
\<close>

definition process_request :: "bool \<Rightarrow> server \<Rightarrow> server" where
  "process_request started s =
     (if slots s = 0 then s
      else
        let s = s\<lparr>slots := slots s - 1\<rparr> in
        if started then s\<lparr>threads := threads s + 1\<rparr> else s\<lparr>slots := slots s + 1\<rparr>)"

definition process_request_thread :: "server \<Rightarrow> server" where
  "process_request_thread s = s\<lparr>slots := slots s + 1, threads := threads s - 1\<rparr>"

definition error_payload :: "service_config \<Rightarrow> string \<Rightarrow> bool \<Rightarrow> pydict" where
  "error_payload cfg message with_node =
     dict ((''error'', PStr (lit message)) # (if with_node then [(''node'', PStr (NODE_NAME cfg))] else []))"

definition served_paths :: "nat list list" where
  "served_paths = map lit [''/'', ''/status.json'', ''/treasury.json'', ''/data/treasury.json'', ''/explorer.json'']"

text \<open>The status code and the payload of an answer.\<close>

definition do_GET :: "service_config \<Rightarrow> rat \<Rightarrow> nat list \<Rightarrow> server \<Rightarrow> nat \<times> pydict" where
  "do_GET cfg now request s =
     (let path = takeWhile (\<lambda>c. c \<noteq> 63) request in
      if length request > 2048 then (414, error_payload cfg ''request path too long'' False)
      else if path \<notin> set served_paths then (404, error_payload cfg ''not found'' False)
      else
        let name = (if path = lit ''/explorer.json'' then ''explorer'' else ''status'') in
        case snapshots s name of
          None \<Rightarrow> (503, error_payload cfg ''node status is unavailable'' True)
        | Some (t, snap) \<Rightarrow>
            if now - t > 120 then (503, error_payload cfg ''node status is unavailable'' True)
            else if substring (lit ''treasury.json'') path \<and> pget snap ''currentBalance'' = None
            then (503, error_payload cfg ''treasury index is catching up'' True)
            else (200, snap))"

text \<open>
  The server's states, for builders that may return \<open>snap\<close> under \<open>name\<close> at time \<open>t\<close> only when
  \<open>built name t snap\<close>.
\<close>

inductive server_reachable :: "(string \<Rightarrow> rat \<Rightarrow> pydict \<Rightarrow> bool) \<Rightarrow> server \<Rightarrow> bool" for built where
  start: "server_reachable built server_start"
| collect: "server_reachable built s \<Longrightarrow> (\<And>snap. result = Inr snap \<Longrightarrow> built name now snap) \<Longrightarrow>
    server_reachable built (collect_snapshot name now result s)"
| request: "server_reachable built s \<Longrightarrow> server_reachable built (process_request started s)"
| finish: "server_reachable built s \<Longrightarrow> 0 < threads s \<Longrightarrow> server_reachable built (process_request_thread s)"

section \<open>Properties\<close>

definition server_ok :: "(string \<Rightarrow> rat \<Rightarrow> pydict \<Rightarrow> bool) \<Rightarrow> server \<Rightarrow> bool" where
  "server_ok built s \<longleftrightarrow> slots s + threads s = 16 \<and> (\<forall>name t snap. snapshots s name = Some (t, snap) \<longrightarrow> built name t snap)"

lemma server_reachable_ok: "server_reachable built s \<Longrightarrow> server_ok built s"
proof (induction rule: server_reachable.induct)
  case start
  show ?case by (simp add: server_ok_def server_start_def)
next
  case (collect s result name now)
  then show ?case by (auto simp: server_ok_def collect_snapshot_def split: sum.split)
next
  case (request s started)
  then show ?case by (auto simp: server_ok_def process_request_def Let_def)
next
  case (finish s)
  then show ?case by (simp add: server_ok_def process_request_thread_def)
qed

lemma do_GET_cases:
  obtains (refused) code message n where "do_GET cfg now request s = (code, error_payload cfg message n)" "code \<in> {404, 414, 503}"
  | (served) name t snap where "do_GET cfg now request s = (200, snap)" "snapshots s name = Some (t, snap)" "now - t \<le> 120"
      "length request \<le> 2048" "takeWhile (\<lambda>c. c \<noteq> 63) request \<in> set served_paths"
      "name = (if takeWhile (\<lambda>c. c \<noteq> 63) request = lit ''/explorer.json'' then ''explorer'' else ''status'')"
      "substring (lit ''treasury.json'') (takeWhile (\<lambda>c. c \<noteq> 63) request) \<longrightarrow> pget snap ''currentBalance'' \<noteq> None"
proof -
  let ?path = "takeWhile (\<lambda>c. c \<noteq> 63) request"
  let ?name = "if ?path = lit ''/explorer.json'' then ''explorer'' else ''status''"
  consider (long) "length request > 2048" | (unknown) "length request \<le> 2048" "?path \<notin> set served_paths"
    | (known) "length request \<le> 2048" "?path \<in> set served_paths" by linarith
  then show ?thesis
  proof cases
    case long
    then show ?thesis by (intro refused [of 414]) (simp_all add: do_GET_def)
  next
    case unknown
    then show ?thesis by (intro refused [of 404]) (simp_all add: do_GET_def)
  next
    case known
    show ?thesis
    proof (cases "snapshots s ?name")
      case None
      then show ?thesis using known by (intro refused [of 503]) (simp_all add: do_GET_def Let_def not_less)
    next
      case (Some entry)
      obtain t snap where e: "entry = (t, snap)" by (cases entry)
      have get: "do_GET cfg now request s = (if now - t > 120 then (503, error_payload cfg ''node status is unavailable'' True)
            else if substring (lit ''treasury.json'') ?path \<and> pget snap ''currentBalance'' = None
            then (503, error_payload cfg ''treasury index is catching up'' True) else (200, snap))"
        using known Some e by (simp add: do_GET_def Let_def not_less)
      show ?thesis
      proof (cases "now - t > 120 \<or> substring (lit ''treasury.json'') ?path \<and> pget snap ''currentBalance'' = None")
        case True
        then show ?thesis using get refused by (auto split: if_splits)
      next
        case False
        then show ?thesis using get Some e known by (intro served [of snap ?name t]) auto
      qed
    qed
  qed
qed

text \<open>
  C18. The server answers with recent collected snapshots only, and runs at most 16 requests at a time. In every
  state it can reach, the free slots and the running threads add up to 16, and a new connection is
  closed exactly when 16 threads run. An answer is an error with one of the codes 404, 414 and 503, or a
  snapshot that a builder returned at most 120 seconds before, the explorer's for its path and the
  status otherwise, which on a treasury path contains the treasury's balance.
\<close>

theorem server_answers_recent_snapshots:
  assumes "server_reachable built s"
  shows "slots s + threads s = 16 \<and> (threads (process_request True s) = threads s \<longleftrightarrow> threads s = 16) \<and>
    (case do_GET cfg now request s of (code, answer) \<Rightarrow>
       code \<in> {404, 414, 503} \<and> (\<exists>message n. answer = error_payload cfg message n) \<or>
       code = 200 \<and> (\<exists>t. now - t \<le> 120 \<and>
         built (if takeWhile (\<lambda>c. c \<noteq> 63) request = lit ''/explorer.json'' then ''explorer'' else ''status'') t answer) \<and>
         (takeWhile (\<lambda>c. c \<noteq> 63) request \<in> {lit ''/treasury.json'', lit ''/data/treasury.json''} \<longrightarrow> pget answer ''currentBalance'' \<noteq> None))"
proof -
  note ok = server_reachable_ok [OF assms, unfolded server_ok_def]
  have p: "threads (process_request True s) = threads s \<longleftrightarrow> threads s = 16" using ok by (auto simp: process_request_def Let_def)
  have t: "substring (lit ''treasury.json'') (lit ''/treasury.json'')" "substring (lit ''treasury.json'') (lit ''/data/treasury.json'')"
    by (simp_all add: lit_def)
  show ?thesis
  proof (cases rule: do_GET_cases [of cfg now request s])
    case (refused code message n)
    then show ?thesis using ok p by auto
  next
    case (served name u snap)
    have "built name u snap" using ok served(2) by blast
    then show ?thesis using ok p t served by auto
  qed
qed

theorem server_answers_recent_snapshots_witness:
  "fst (do_GET ex_config 200 (lit ''/status.json?x'') (process_request True (collect_snapshot ''status'' 100 (Inr (dict [])) server_start))) = 200"
proof -
  let ?s = "process_request True (collect_snapshot ''status'' 100 (Inr (dict [])) server_start)"
  have r: "server_reachable (\<lambda>_ _ _. True) ?s" by (intro server_reachable.intros TrueI)
  have "fst (do_GET ex_config 200 (lit ''/status.json?x'') ?s) \<notin> {404, 414, 503}"
    by (simp add: do_GET_def process_request_def collect_snapshot_def server_start_def served_paths_def Let_def lit_def)
  then show ?thesis using server_answers_recent_snapshots [OF r, of ex_config 200 "lit ''/status.json?x''"]
    by (cases "do_GET ex_config 200 (lit ''/status.json?x'') ?s") auto
qed

end
