(* ===== verification/Publish_Files.thy ===== *)
theory Publish_Files
  imports Publishers Feed_Data
begin

text \<open>
  How the published files change: \<^verbatim>\<open>export\<close> and the main loop of
  \<^verbatim>\<open>src/services/export-node-snapshots.py\<close>, and \<^verbatim>\<open>publish\<close> of
  \<^verbatim>\<open>src/services/fetch_beta_treasury_status.py\<close>. A directory is its published files and the temporary files
  in it; a file has the text that has reached it, and whether that text is known to be on the disk. An
  operation gives the directories it passes through, in order, since the web server may read the files and the
  machine may stop at any of them. Which system calls fail, what the remote command prints and what
  \<^verbatim>\<open>json.loads\<close> makes of it are arguments.
\<close>

section \<open>Model\<close>

text \<open>What was written: some part of a value's JSON text, the whole text, or the text and the newline after it.\<close>

datatype written = Part | Json pydict | Json_line pydict

record file_data =
  file_text :: written
  file_synced :: bool

text \<open>The temporary file that is open is the first one: what was written to it, and what has reached the file.\<close>

record temporary =
  buffered :: written
  reached :: file_data

record directory =
  dir_files :: "nat list \<rightharpoonup> file_data"
  dir_temps :: "temporary list"

datatype io_step = Mkdir | OpenTemporary | Dump | WriteNewline | Flush | Fsync | Close | Chmod | Replace | Unlink

definition on_temp :: "(temporary \<Rightarrow> temporary) \<Rightarrow> directory \<Rightarrow> directory" where
  "on_temp f d = d\<lparr>dir_temps := (case dir_temps d of [] \<Rightarrow> [] | t # ts \<Rightarrow> f t # ts)\<rparr>"

text \<open>
  The effect of a step that succeeds. Flushing and closing pass on what is buffered; a text that has not been
  synchronised since it changed may not be on the disk.
\<close>

definition flush_temp :: "temporary \<Rightarrow> temporary" where
  "flush_temp t = (if file_text (reached t) = buffered t then t
     else t\<lparr>reached := \<lparr>file_text = buffered t, file_synced = False\<rparr>\<rparr>)"

fun io_effect :: "nat list \<Rightarrow> pydict \<Rightarrow> io_step \<Rightarrow> directory \<Rightarrow> directory" where
  "io_effect path value OpenTemporary d =
     d\<lparr>dir_temps := \<lparr>buffered = Part, reached = \<lparr>file_text = Part, file_synced = False\<rparr>\<rparr> # dir_temps d\<rparr>"
| "io_effect path value Dump d = on_temp (\<lambda>t. t\<lparr>buffered := Json value\<rparr>) d"
| "io_effect path value WriteNewline d =
     on_temp (\<lambda>t. t\<lparr>buffered := (case buffered t of Json v \<Rightarrow> Json_line v | _ \<Rightarrow> Part)\<rparr>) d"
| "io_effect path value Flush d = on_temp flush_temp d"
| "io_effect path value Fsync d = on_temp (\<lambda>t. t\<lparr>reached := (reached t)\<lparr>file_synced := True\<rparr>\<rparr>) d"
| "io_effect path value Close d = on_temp flush_temp d"
| "io_effect path value Replace d =
     (case dir_temps d of [] \<Rightarrow> d
      | t # ts \<Rightarrow> d\<lparr>dir_files := (dir_files d)(path \<mapsto> reached t), dir_temps := ts\<rparr>)"
| "io_effect path value Unlink d = d\<lparr>dir_temps := tl (dir_temps d)\<rparr>"
| "io_effect path value Mkdir d = d"
| "io_effect path value Chmod d = d"

text \<open>Steps in order, up to the first that fails.\<close>

fun io_steps :: "(io_step \<Rightarrow> bool) \<Rightarrow> nat list \<Rightarrow> pydict \<Rightarrow> io_step list \<Rightarrow> directory \<Rightarrow> directory list \<times> bool" where
  "io_steps fails path value [] d = ([d], True)"
| "io_steps fails path value (s # ss) d =
     (if fails s then ([d], False)
      else let (ds, ok) = io_steps fails path value ss (io_effect path value s d) in (d # ds, ok))"

text \<open>
  The common end of both scripts: the value is written to a temporary file, which then replaces the
  published file; the temporary file is removed when it still exists.
\<close>

definition replace_file :: "(io_step \<Rightarrow> bool) \<Rightarrow> nat list \<Rightarrow> pydict \<Rightarrow> directory \<Rightarrow> directory list \<times> unit py" where
  "replace_file fails path value d =
     (if fails Mkdir \<or> fails OpenTemporary then ([d], Inl PyOSError)
      else
        let (ds, ok) = io_steps fails path value [Dump, WriteNewline, Flush, Fsync, Close, Chmod, Replace]
              (io_effect path value OpenTemporary d) in
        if ok then (d # ds, Inr ())
        else (d # ds @ (if fails Unlink then [] else [io_effect path value Unlink (last ds)]), Inl PyOSError))"

text \<open>The output of a command or of a read: its number of bytes, and the value of \<^verbatim>\<open>json.loads\<close>.\<close>

type_synonym json_output = "nat \<times> pyval py"

definition load_limited :: "json_output \<Rightarrow> pyval py" where
  "load_limited out = (if fst out > 1048576 then Inl PyValueError else snd out)"

record export_target =
  tg_name :: "string option"
  tg_sshHost :: "nat list option"
  tg_sshPort :: "int option"
  tg_keyFile :: "nat list option"

definition official_names :: "string list" where
  "official_names = [''borogove'', ''mome'', ''rath'']"

definition host_char :: "nat \<Rightarrow> bool" where
  "host_char c \<longleftrightarrow> is_upper c \<or> is_lower c \<or> is_digit c \<or> c = 95 \<or> c = 46 \<or> c = 64 \<or> c = 45"

definition host_ok :: "nat list \<Rightarrow> bool" where
  "host_ok host \<longleftrightarrow> re_test (RSeq (RClass host_char) (RStar (RClass host_char))) host \<and> take 1 host \<noteq> [45]"

definition key_value :: "'a option \<Rightarrow> 'a py" where
  "key_value x = (case x of None \<Rightarrow> Inl PyKeyError | Some v \<Rightarrow> Inr v)"

text \<open>The checks before the command; \<open>key_usable\<close> is whether the key is an existing file with an absolute path.\<close>

definition export_command :: "(nat list \<Rightarrow> bool) \<Rightarrow> export_target \<Rightarrow> (string \<times> nat list list) py" where
  "export_command key_usable target =
     rbind (key_value (tg_name target)) (\<lambda>name.
     rbind (require (name \<in> set official_names)) (\<lambda>_.
     rbind (key_value (tg_sshHost target)) (\<lambda>host.
     rbind (require (host_ok host)) (\<lambda>_.
     let port = (case tg_sshPort target of None \<Rightarrow> 22 | Some p \<Rightarrow> p) in
     rbind (require (1 \<le> port \<and> port \<le> 65535)) (\<lambda>_.
     rbind (key_value (tg_keyFile target)) (\<lambda>key.
     rbind (require (key_usable key)) (\<lambda>_.
       Inr (name, [lit ''ssh'', lit ''-o'', lit ''BatchMode=yes'', lit ''-o'', lit ''StrictHostKeyChecking=yes'',
         lit ''-o'', lit ''ConnectTimeout=8'', lit ''-i'', key, lit ''-p'', digits (nat port), host, lit ''status''])))))))) "

record attempt =
  at_target :: export_target
  at_key_usable :: "nat list \<Rightarrow> bool"
  at_run :: "nat list list \<Rightarrow> json_output py"
  at_now :: int
  at_fails :: "io_step \<Rightarrow> bool"

definition export :: "py_env \<Rightarrow> attempt \<Rightarrow> directory \<Rightarrow> directory list \<times> unit py" where
  "export env a d =
     (case rbind (export_command (at_key_usable a) (at_target a)) (\<lambda>(name, command).
           rbind (at_run a command) (\<lambda>out.
           rbind (load_limited out) (\<lambda>value.
           rbind (public_snapshot env (at_now a) value name) (\<lambda>snap. Inr (name, snap))))) of
        Inl e \<Rightarrow> ([d], Inl e)
      | Inr (name, snap) \<Rightarrow> replace_file (at_fails a) (lit name @ lit ''.json'') snap d)"

text \<open>The main loop: the directories in order and the number of failures, which decides the exit code.\<close>

fun export_all :: "py_env \<Rightarrow> attempt list \<Rightarrow> directory \<Rightarrow> directory list \<times> nat" where
  "export_all env [] d = ([d], 0)"
| "export_all env (a # rest) d =
     (let (ds, r) = export env a d; (ds', n) = export_all env rest (last ds) in
      (ds @ ds', case r of Inl _ \<Rightarrow> n + 1 | Inr _ \<Rightarrow> n))"

definition exit_code :: "nat \<Rightarrow> nat" where
  "exit_code failures = (if failures \<noteq> 0 then 1 else 0)"

definition publish :: "py_env \<Rightarrow> int \<Rightarrow> json_output py \<Rightarrow> (io_step \<Rightarrow> bool) \<Rightarrow> nat list \<Rightarrow> nat list \<Rightarrow> nat list \<Rightarrow> directory \<Rightarrow>
    directory list \<times> unit py" where
  "publish env now source fails output network addr d =
     (case rbind source (\<lambda>raw. rbind (load_limited raw) (\<lambda>value. validate_treasury env now value network addr)) of
        Inl e \<Rightarrow> ([d], Inl e)
      | Inr snap \<Rightarrow> replace_file fails output snap d)"

section \<open>Files are replaced whole\<close>

text \<open>A file with the whole text of a value, on the disk.\<close>

definition whole :: "pydict \<Rightarrow> file_data" where
  "whole value = \<lparr>file_text = Json_line value, file_synced = True\<rparr>"

lemma replace_file_steps:
  assumes "replace_file fails path value d = (ds, r)"
  shows "ds \<noteq> []" "x \<in> set ds \<Longrightarrow> dir_files x = dir_files d \<or> dir_files x = (dir_files d)(path \<mapsto> whole value)"
    "dir_files (last ds) = (case r of Inl _ \<Rightarrow> dir_files d | Inr _ \<Rightarrow> (dir_files d)(path \<mapsto> whole value))"
  using assms by (auto simp: replace_file_def on_temp_def flush_temp_def whole_def split: if_splits)

lemma replace_file_ok: "(\<And>s. \<not> fails s) \<Longrightarrow> snd (replace_file fails path value d) = Inr ()"
  by (simp add: replace_file_def split: prod.splits)

text \<open>What an export may leave under a name: a snapshot of that official node that passed the filter.\<close>

definition exported :: "py_env \<Rightarrow> attempt \<Rightarrow> nat list \<Rightarrow> pydict \<Rightarrow> bool" where
  "exported env a path snap \<longleftrightarrow> (\<exists>name command out value. export_command (at_key_usable a) (at_target a) = Inr (name, command) \<and>
     at_run a command = Inr out \<and> fst out \<le> 1048576 \<and> snd out = Inr value \<and>
     public_snapshot env (at_now a) value name = Inr snap \<and> path = lit name @ lit ''.json'')"

lemma export_cases:
  obtains (rejected) e where "export env a d = ([d], Inl e)"
  | (written) path snap where "exported env a path snap" "export env a d = replace_file (at_fails a) path snap d"
proof (cases "rbind (export_command (at_key_usable a) (at_target a)) (\<lambda>(name, command).
           rbind (at_run a command) (\<lambda>out.
           rbind (load_limited out) (\<lambda>value.
           rbind (public_snapshot env (at_now a) value name) (\<lambda>snap. Inr (name, snap)))))")
  case (Inl e)
  then show ?thesis using rejected by (simp add: export_def)
next
  case (Inr p)
  obtain name snap where p: "p = (name, snap)" by (cases p)
  from Inr p have "exported env a (lit name @ lit ''.json'') snap"
    by (auto simp: exported_def rbind_Inr_iff load_limited_def split: if_splits)
  then show ?thesis using written Inr p by (simp add: export_def)
qed

lemma export_steps:
  assumes "export env a d = (ds, r)"
  shows "ds \<noteq> []" "x \<in> set ds \<Longrightarrow> dir_files x = dir_files d \<or> (\<exists>path snap. exported env a path snap \<and> dir_files x = (dir_files d)(path \<mapsto> whole snap))"
    "(\<exists>e. r = Inl e) \<Longrightarrow> dir_files (last ds) = dir_files d"
proof -
  have "ds \<noteq> [] \<and> (x \<in> set ds \<longrightarrow> dir_files x = dir_files d \<or>
      (\<exists>path snap. exported env a path snap \<and> dir_files x = (dir_files d)(path \<mapsto> whole snap))) \<and>
      ((\<exists>e. r = Inl e) \<longrightarrow> dir_files (last ds) = dir_files d)"
  proof (cases rule: export_cases [of env a d])
    case (rejected e)
    then show ?thesis using assms by auto
  next
    case (written path snap)
    note s = replace_file_steps [OF written(2) [symmetric, unfolded assms]]
    show ?thesis using s(1,3) s(2) [of x] written(1) by auto
  qed
  then show "ds \<noteq> []" "x \<in> set ds \<Longrightarrow> dir_files x = dir_files d \<or> (\<exists>path snap. exported env a path snap \<and> dir_files x = (dir_files d)(path \<mapsto> whole snap))"
    "(\<exists>e. r = Inl e) \<Longrightarrow> dir_files (last ds) = dir_files d" by blast+
qed

lemma exported_written:
  assumes "export env a d = (ds, Inr u)"
  shows "\<exists>path snap. exported env a path snap \<and> dir_files (last ds) path = Some (whole snap)"
proof (cases rule: export_cases [of env a d])
  case (rejected e)
  then show ?thesis using assms by simp
next
  case (written path snap)
  then show ?thesis using replace_file_steps(3) [OF written(2) [symmetric, unfolded assms]] by auto
qed

lemma export_ok:
  assumes "export_command (at_key_usable a) (at_target a) = Inr (name, command)" "at_run a command = Inr out"
    "load_limited out = Inr value" "public_snapshot env (at_now a) value name = Inr snap" "\<And>s. \<not> at_fails a s"
  shows "\<exists>ds. export env a d = (ds, Inr ())"
  using assms replace_file_ok [of "at_fails a" "lit name @ lit ''.json''" snap d]
  by (simp add: export_def) (metis prod.collapse)

lemma export_all_steps:
  assumes "export_all env attempts d = (ds, n)" "x \<in> set ds"
  shows "dir_files x path = dir_files d path \<or> (\<exists>a \<in> set attempts. \<exists>snap. exported env a path snap \<and> dir_files x path = Some (whole snap))"
  using assms
proof (induction attempts arbitrary: d ds n)
  case (Cons a rest)
  obtain ds1 r where e: "export env a d = (ds1, r)" by fastforce
  obtain ds2 m where f: "export_all env rest (last ds1) = (ds2, m)" by fastforce
  have one: "dir_files y path = dir_files d path \<or> (\<exists>snap. exported env a path snap \<and> dir_files y path = Some (whole snap))" if "y \<in> set ds1" for y
    using export_steps(2) [OF e that] by (auto simp: fun_upd_def split: if_splits)
  have "x \<in> set ds1 \<or> x \<in> set ds2" using Cons.prems e f by auto
  then show ?case
  proof
    assume "x \<in> set ds2"
    then show ?thesis using Cons.IH [OF f] one [OF last_in_set [OF export_steps(1) [OF e]]] by auto
  qed (use one in auto)
qed simp

lemma export_all_last: "export_all env attempts d = (ds, n) \<Longrightarrow> ds \<noteq> []"
  by (cases attempts) (auto dest: export_steps(1) split: prod.splits)

lemma export_all_succeeds:
  assumes "export_all env attempts d = (ds, 0)" "a \<in> set attempts"
  shows "\<exists>path snap. (\<exists>old. exported env a path old) \<and> (\<exists>a' \<in> set attempts. exported env a' path snap) \<and> dir_files (last ds) path = Some (whole snap)"
  using assms
proof (induction attempts arbitrary: d ds)
  case (Cons b rest)
  obtain ds1 r where e: "export env b d = (ds1, r)" by fastforce
  obtain ds2 m where f: "export_all env rest (last ds1) = (ds2, m)" by fastforce
  have m: "m = 0" and r: "r = Inr ()" and ds: "ds = ds1 @ ds2" using Cons.prems(1) e f by (auto split: sum.splits)
  have l: "last ds = last ds2" "last ds2 \<in> set ds2" using export_all_last [OF f] ds by simp_all
  show ?case
  proof (cases "a \<in> set rest")
    case True
    then show ?thesis using Cons.IH [OF f [unfolded m]] l(1) by auto
  next
    case False
    then have "a = b" using Cons.prems(2) by simp
    then obtain path snap where p: "exported env a path snap" "dir_files (last ds1) path = Some (whole snap)"
      using exported_written [OF e [unfolded r]] by blast
    then show ?thesis using export_all_steps [OF f l(2), of path] l(1) \<open>a = b\<close> by auto
  qed
qed simp

definition published :: "py_env \<Rightarrow> int \<Rightarrow> json_output py \<Rightarrow> nat list \<Rightarrow> nat list \<Rightarrow> pydict \<Rightarrow> bool" where
  "published env now source network addr snap \<longleftrightarrow> (\<exists>raw value. source = Inr raw \<and> fst raw \<le> 1048576 \<and> snd raw = Inr value \<and>
     validate_treasury env now value network addr = Inr snap)"

lemma publish_steps:
  assumes "publish env now source fails output network addr d = (ds, r)"
  shows "x \<in> set ds \<Longrightarrow> dir_files x = dir_files d \<or> (\<exists>snap. published env now source network addr snap \<and> dir_files x = (dir_files d)(output \<mapsto> whole snap))"
    "(\<exists>e. r = Inl e) \<Longrightarrow> dir_files (last ds) = dir_files d"
proof -
  let ?read = "rbind source (\<lambda>raw. rbind (load_limited raw) (\<lambda>value. validate_treasury env now value network addr))"
  have "(x \<in> set ds \<longrightarrow> dir_files x = dir_files d \<or>
      (\<exists>snap. published env now source network addr snap \<and> dir_files x = (dir_files d)(output \<mapsto> whole snap))) \<and>
    ((\<exists>e. r = Inl e) \<longrightarrow> dir_files (last ds) = dir_files d)"
  proof (cases ?read)
    case (Inl e)
    then show ?thesis using assms by (auto simp: publish_def)
  next
    case (Inr snap)
    then have p: "published env now source network addr snap"
      by (auto simp: published_def rbind_Inr_iff load_limited_def split: if_splits)
    have f: "replace_file fails output snap d = (ds, r)" using assms Inr by (simp add: publish_def)
    show ?thesis using replace_file_steps(2) [OF f] replace_file_steps(3) [OF f] p by auto
  qed
  then show "x \<in> set ds \<Longrightarrow> dir_files x = dir_files d \<or> (\<exists>snap. published env now source network addr snap \<and> dir_files x = (dir_files d)(output \<mapsto> whole snap))"
    "(\<exists>e. r = Inl e) \<Longrightarrow> dir_files (last ds) = dir_files d" by blast+
qed

section \<open>Property\<close>

text \<open>
  C16. Published files are only ever replaced whole, whatever system call fails and whenever a visitor looks. At every
  moment of a run of the exporter, each file is as it was before the run or holds, complete to the final newline and
  synchronised to the disk, a snapshot that an attempt of this run received, within the size limit, and filtered,
  under the name of its official node;
  and when the run reports success, every target's file is such a snapshot. At every moment of a run of
  the treasury publisher, nothing has changed or exactly the output file has become a validated
  snapshot, as complete; a run that fails changes nothing.
\<close>

theorem published_files_are_replaced_whole:
  "(case export_all env attempts d of (ds, failures) \<Rightarrow>
     (\<forall>x \<in> set ds. \<forall>path. dir_files x path = dir_files d path \<or>
        (\<exists>a \<in> set attempts. \<exists>snap. exported env a path snap \<and> dir_files x path = Some (whole snap))) \<and>
     (exit_code failures = 0 \<longrightarrow> (\<forall>a \<in> set attempts. \<exists>path snap. (\<exists>old. exported env a path old) \<and>
        (\<exists>a' \<in> set attempts. exported env a' path snap) \<and> dir_files (last ds) path = Some (whole snap)))) \<and>
   (case publish env now source fails output network addr d of (ds, r) \<Rightarrow>
     (\<forall>x \<in> set ds. dir_files x = dir_files d \<or>
        (\<exists>snap. published env now source network addr snap \<and> dir_files x = (dir_files d)(output \<mapsto> whole snap))) \<and>
     ((\<exists>e. r = Inl e) \<longrightarrow> dir_files (last ds) = dir_files d))"
proof -
  obtain ds n where e: "export_all env attempts d = (ds, n)" by fastforce
  obtain ps r where p: "publish env now source fails output network addr d = (ps, r)" by fastforce
  have "\<forall>x \<in> set ds. \<forall>path. dir_files x path = dir_files d path \<or>
      (\<exists>a \<in> set attempts. \<exists>snap. exported env a path snap \<and> dir_files x path = Some (whole snap))"
    using export_all_steps [OF e] by blast
  moreover have "exit_code n = 0 \<longrightarrow> (\<forall>a \<in> set attempts. \<exists>path snap. (\<exists>old. exported env a path old) \<and>
      (\<exists>a' \<in> set attempts. exported env a' path snap) \<and> dir_files (last ds) path = Some (whole snap))"
    using export_all_succeeds e by (auto simp: exit_code_def)
  moreover have "\<forall>x \<in> set ps. dir_files x = dir_files d \<or>
      (\<exists>snap. published env now source network addr snap \<and> dir_files x = (dir_files d)(output \<mapsto> whole snap))"
    "(\<exists>e. r = Inl e) \<longrightarrow> dir_files (last ps) = dir_files d" using publish_steps [OF p] by blast+
  ultimately show ?thesis unfolding e p by simp
qed

definition ex_attempt :: attempt where
  "ex_attempt = \<lparr>at_target = \<lparr>tg_name = Some ''mome'', tg_sshHost = Some (lit ''mome''), tg_sshPort = None, tg_keyFile = Some (lit ''/key'')\<rparr>,
     at_key_usable = \<lambda>_. True, at_run = \<lambda>_. Inr (100, Inr (PDict ex_private)), at_now = 1788912000000000, at_fails = \<lambda>_. False\<rparr>"

lemma ex_command: "\<exists>command. export_command (at_key_usable ex_attempt) (at_target ex_attempt) = Inr (''mome'', command)"
proof -
  have "host_ok (lit ''mome'')"
    by (simp add: host_ok_def lit_def host_char_def is_lower_def is_upper_def is_digit_def)
  then show ?thesis
    by (simp add: export_command_def ex_attempt_def key_value_def require_def official_names_def Let_def)
qed

lemma ex_export: "\<exists>ds. export env ex_attempt d = (ds, Inr ())"
proof -
  obtain command where c: "export_command (at_key_usable ex_attempt) (at_target ex_attempt) = Inr (''mome'', command)"
    using ex_command by blast
  have r: "at_run ex_attempt command = Inr (100, Inr (PDict ex_private))" "load_limited (100, Inr (PDict ex_private)) = Inr (PDict ex_private)"
    "at_now ex_attempt = 1788912000000000" "\<And>s. \<not> at_fails ex_attempt s" by (simp_all add: ex_attempt_def load_limited_def)
  show ?thesis using export_ok [OF c r(1,2) _ r(4)] ex_private_published [of env] unfolding r(3) by blast
qed

lemma ex_export_succeeds: "snd (export_all env [ex_attempt] d) = 0"
  using ex_export [of env d] by auto

theorem published_files_are_replaced_whole_witness:
  "\<exists>path snap. dir_files (last (fst (export_all \<lparr>iso_other = \<lambda>_. None, decimal_other = \<lambda>_. None, py_str_other = \<lambda>_. []\<rparr>
     [ex_attempt] \<lparr>dir_files = Map.empty, dir_temps = []\<rparr>))) path = Some (whole snap)"
proof -
  let ?env = "\<lparr>iso_other = \<lambda>_. None, decimal_other = \<lambda>_. None, py_str_other = \<lambda>_. []\<rparr>"
  let ?d = "\<lparr>dir_files = Map.empty, dir_temps = []\<rparr>"
  obtain ds n where e: "export_all ?env [ex_attempt] ?d = (ds, n)" by fastforce
  then have "exit_code n = 0" using ex_export_succeeds [of ?env ?d] by (simp add: exit_code_def)
  then show ?thesis
    using published_files_are_replaced_whole [where env = ?env and attempts = "[ex_attempt]" and d = ?d, THEN conjunct1, unfolded e prod.case,
        THEN conjunct2] unfolding e by auto
qed

end
