(* ===== verification/Spec2Isabelle.thy ===== *)
theory Spec2Isabelle
  imports Pow Rewards Explorer Node_Status Treasury_Page Site_Menu Publication Status_Server Publish_Files
begin

text \<open>
  A verification development of Slithy Tove: a currency node derived from Bitcoin Core, services that
  publish what a node and its treasury report, and a website that shows these reports to visitors.

  \<^bold>\<open>The parts and how they interact.\<close> The node (\<^verbatim>\<open>src/core\<close>) keeps a block index, demands work of each new block and
  splits the reward between the miner and the literacy treasury. Beside each node runs a status service
  (\<^verbatim>\<open>src/services/slithy-node-status-server.py\<close>): it queries the node, follows the treasury's outputs block by
  block, summarises recent blocks, and serves the cached reports over HTTP. An exporter
  (\<^verbatim>\<open>export-node-snapshots.py\<close>) fetches the status of the three official nodes and publishes a filtered file
  for each; the treasury publisher (\<^verbatim>\<open>fetch_beta_treasury_status.py\<close>) checks such a file and publishes the
  balances. The pages of the website (\<^verbatim>\<open>src/site\<close>) download the published files with one shared script and
  display them while they are recent. The wallet for Windows estimates the treasury's income by itself.

  \<^bold>\<open>Theories of the node.\<close>
  \<^item> \<open>Prelude\<close>: errors as values, the integer types, shared facts.
  \<^item> \<open>Arith_Uint256\<close>: \<^verbatim>\<open>base_uint\<close> of \<^verbatim>\<open>arith_uint256.h\<close> and \<^verbatim>\<open>.cpp\<close> as eight 32-bit limbs, each loop of the source as a
    recursion over limbs (\<^const>\<open>uint_add\<close>, \<^const>\<open>uint_mul\<close>, \<^const>\<open>uint_div\<close>, the shifts, \<^const>\<open>CompareTo\<close>). Every operation computes
    its arithmetic meaning modulo \<open>2 ^ 256\<close>; these facts are the laws of the locale \<open>uint_arith\<close>, which is
    interpreted on the limbs and on which the theories below rest.
  \<^item> \<open>Compact\<close>: \<^const>\<open>SetCompact\<close> and \<^const>\<open>GetCompact\<close>, with the round trip between them.
  \<^item> \<open>Consensus_Params\<close>: the fields of \<^verbatim>\<open>Consensus::Params\<close> that the rules read and their values on the five networks
    (\<^verbatim>\<open>kernel/chainparams.cpp\<close>).
  \<^item> \<open>Block_Index\<close>: \<^verbatim>\<open>CBlockIndex\<close> with its skip pointers and \<^const>\<open>AddToBlockIndex\<close>. A pointer is the hash under which the
    entry is stored. Insertion keeps the index well formed, the search over the skip list finds what the walk
    along the parents finds (locale \<open>ancestor_lookup\<close>), and after any sequence of insertions the accumulated work is the
    sum of the blocks' work and the best header has the most.
  \<^item> \<open>Pow\<close>: \<^verbatim>\<open>pow.cpp\<close>. The required work exists for every chain, scaling is exact although the products exceed 256
    bits, the retargeted value is known for every combination of the rules, and on each network every required
    target passes the transition check of headers synchronisation.
  \<^item> \<open>Rewards\<close>: \<^const>\<open>GetBlockSubsidy\<close>, the coinbase checks of \<^verbatim>\<open>ConnectBlock\<close>, the coinbase outputs of \<^verbatim>\<open>CreateNewBlock\<close>, the treasury
    object of \<^verbatim>\<open>getblocktemplate\<close>, and the wallet's \<^verbatim>\<open>TreasuryStatusCalculator.cs\<close>. What is assembled is accepted, a
    coinbase is accepted exactly when it pays what is advertised, the wallet's estimate is the sum of the required payments, and the total
    issue stays below \<^const>\<open>MAX_MONEY\<close>.

  \<^bold>\<open>Theories of the website.\<close> Exceptions are values of a sum type and the document is the part of it the scripts read and
  write. The outcome of a download, the clock, and the locale-dependent texts (a record \<open>js_env\<close>) are arguments.
  \<^item> \<open>JS_Value\<close>, \<open>JS_Text\<close>: doubles as rationals with correct rounding, strings as UTF-16 code units, coercions, regular
    expressions by derivatives, the streaming UTF-8 decoder, \<^verbatim>\<open>JSON.parse\<close> and \<^verbatim>\<open>Date.parse\<close>. The JSON parser has fuel
    \<open>2 * length s + 1\<close>; more fuel never changes its result, so nothing is lost.
  \<^item> \<open>Feed_Data\<close>: \<^verbatim>\<open>feed-data.js\<close>; when a download resolves, and with what, whatever the chunks of the response.
  \<^item> \<open>Report_Checks\<close>: what the pages share, with the locale \<open>polled_page\<close>, the contract of a page that polls a report: at most
    one download is pending. The three pages below interpret it.
  \<^item> \<open>Explorer\<close>, \<open>Node_Status\<close>, \<open>Treasury_Page\<close>: \<^verbatim>\<open>explorer.js\<close>, \<^verbatim>\<open>node-status.js\<close>, \<^verbatim>\<open>treasury.js\<close>: validation, rendering, and each page's states
    under timers, finished downloads and visibility changes as a step relation. Shown values come from
    valid reports that were recent when painted; the search finds exactly what the text occurs in.
  \<^item> \<open>Site_Menu\<close>: \<^verbatim>\<open>site.js\<close>, which implements a switch with two positions.

  \<^bold>\<open>Theories of the services.\<close> The node's answers are arguments, numbered by call, so the chain may change between any two
  calls and any call may fail. Clocks, failing system calls and the library functions that published values
  do not reach (a record \<open>py_env\<close>) are arguments too.
  \<^item> \<open>Py_Value\<close>: Python's JSON values, the formatting of decimal amounts, and \<^const>\<open>to_js\<close>, what a script reads of a
    published value.
  \<^item> \<open>Treasury_Index\<close>: \<^verbatim>\<open>advance_treasury_index\<close> and \<^verbatim>\<open>treasury_status\<close>. A report is always the scan of one linked chain, and its
    amounts balance.
  \<^item> \<open>Publishers\<close>: \<^verbatim>\<open>build_status\<close>, \<^verbatim>\<open>public_snapshot\<close> and \<^verbatim>\<open>validate\<close> of the publishers. Only listed fields leave the exporter.
  \<^item> \<open>Publish_Files\<close>: \<^verbatim>\<open>export\<close>, its main loop and \<^verbatim>\<open>publish\<close>: files are replaced whole, after they are on the disk, or not at
    all. The texts of files are abstract: a part, the JSON of a value, or the JSON and its newline.
  \<^item> \<open>Publication\<close>: the chain of collector, exporter, publisher and page. Reports fit for publication reach the node cards
    and the treasury page, with the exact balances of the index.
  \<^item> \<open>Explorer_Service\<close>: \<^verbatim>\<open>transaction_summary\<close>, \<^verbatim>\<open>block_summary\<close> and \<^verbatim>\<open>build_explorer\<close>. The loop that shortens the report is a
    \<^theory_text>\<open>partial_function\<close> whose value is \<open>None\<close> when it does not end; it ends because 25 blocks without their
    transactions stay below 750000 bytes. The explorer page accepts every such report.
  \<^item> \<open>Status_Server\<close>: \<^verbatim>\<open>collect_snapshots\<close>, the limit of 16 request threads and \<^verbatim>\<open>do_GET\<close>.

  This theory holds the properties that span the components: the explorer's download, the way of a node's file from
  the exporter to the card of its node, and reports that stop a page from expiring. The web server between the two is not
  part of the sources; it is an argument of which \<open>serves_nodes\<close> states what the pages rely on.

  \<^bold>\<open>Bounds.\<close> Heights, counts and times of reports are assumed below \<open>2 ^ 53\<close> where a script reads them, since larger integers
  are not exact doubles; amounts below \<open>10 ^ 15 - 1\<close> coins, the width the pages accept, which the issue never
  reaches. The time of a visitor's clock lies in the range of JavaScript dates. Heights of the block index are
  unbounded integers; the 32-bit field of the source could only overflow after \<open>2 ^ 31\<close> headers. Decimal sums of the treasury index are
  exact, as they are in Python for amounts of up to 28 digits.

  \<^bold>\<open>Not modelled.\<close> Of the node: networking, scripts and signatures, the wallet, the mempool, storage, the remaining RPCs and
  the rest of validation and block assembly, which are the code of Bitcoin Core and rest on cryptography,
  threads and databases; its graphical interface and the translation catalogues (the \<^verbatim>\<open>.ts\<close> files, which are data);
  of the parameters, genesis blocks, seeds, deployments and address prefixes; of the 256-bit integers, the
  bitwise assignments, \<^verbatim>\<open>getdouble\<close> and the hexadecimal printers. The desktop wallets, apart from the treasury estimate, are windows
  around remote calls, and their recovery words and keys come from a library. Installers, update tools, build
  and test scripts, and the static pages have no model. Of the services, sockets, response headers, process
  start and argument parsing are left out. Layout, styling and the browser's own behaviour are outside the
  pages' models.
\<close>

section \<open>Properties across components\<close>

lemma path_evaluation:
  "path_ok explorer_path" "path_ok treasury_path"
  "path_ok (node_path ''borogove'')" "path_ok (node_path ''mome'')" "path_ok (node_path ''rath'')"
  by (simp_all add: path_ok_def path_re_def explorer_path_def treasury_path_def node_path_def lit_def re_lit_def char_classes)

lemma read_starts: "path_ok path \<Longrightarrow> take 2 (fst (read path m fetched)) = [StartTimer 10000, Fetch path]"
  by (auto simp: read_def Let_def split: sum.split option.split)

text \<open>
  What the pages rely on of the web server, which is not part of the sources: a request for a path under
  \<^verbatim>\<open>/data/nodes/\<close> is answered with the file of that name in the exporter's output directory. The text that
  \<^verbatim>\<open>json.dump\<close> wrote of a snapshot arrives within the default limit and parses to the snapshot.
\<close>

definition serves_nodes :: "(jsstr \<Rightarrow> response js) \<Rightarrow> directory \<Rightarrow> bool" where
  "serves_nodes site dir \<longleftrightarrow> (\<forall>name snap. dir_files dir name = Some (whole snap) \<longrightarrow>
     (\<exists>response parts text. site (lit ''/data/nodes/'' @ name) = Inr response \<and> resp_ok response \<and>
        body response = Some (parts, None) \<and>
        \<not> num_lt (Fin (of_nat default_maxBytes)) (header_number (content_length response)) \<and>
        length (concat parts) \<le> default_maxBytes \<and> utf8_decode (concat parts) = Inr text \<and>
        JSON_parse text = Inr (to_js (PDict snap))))"

lemma node_file: "node_path name = lit ''/data/nodes/'' @ lit name @ lit ''.json''"
  by (simp add: node_path_def lit_def)

lemma node_path_ok: "name \<in> set node_names \<Longrightarrow> path_ok (node_path name)"
  using path_evaluation by (auto simp: node_names_def)

lemma card_refresh_resolved:
  assumes "snd (read (node_path name) default_maxBytes fetched) = Inr v"
  shows "card_snapshot (card_refresh env name now fetched c) = v"
    and "classify env v now = Inr st \<Longrightarrow> card_state (card_refresh env name now fetched c) = state st"
    and "classify env v now = Inr st \<Longrightarrow> card_label (card_refresh env name now fetched c) = lit (label st)"
    and "classify env v now = Inr st \<Longrightarrow> card_detail (card_refresh env name now fetched c) = detail st"
  using assms by (simp_all add: card_refresh_def card_refresh_done_def card_paint_def split: sum.split)

lemma exported_official:
  "exported env a path snap \<Longrightarrow> \<exists>name. tg_name (at_target a) = Some name \<and> name \<in> set official_names \<and> path = lit name @ lit ''.json''"
  by (auto simp: exported_def export_command_def key_value_def require_def rbind_Inr_iff Let_def split: option.splits if_splits)

text \<open>
  C35. The file that the exporter writes is the one its node's card polls. When an export succeeds, its target names an
  official node, and the snapshot that was received for that node and filtered is in that node's file. The
  card of that name starts, and for every web server that answers paths under \<^verbatim>\<open>/data/nodes/\<close> with the files of the
  exporter's directory, the card's download sends its request, and the card then holds exactly this
  snapshot, with the state, label and detail that classify gives it.
\<close>

theorem exported_file_reaches_its_card:
  assumes "export penv a d = (ds, Inr ())"
  shows "\<exists>name snap. tg_name (at_target a) = Some name \<and> exported penv a (lit name @ lit ''.json'') snap \<and>
    dir_files (last ds) (lit name @ lit ''.json'') = Some (whole snap) \<and> card_start name c \<noteq> None \<and>
    (\<forall>site. serves_nodes site (last ds) \<longrightarrow>
      (let fetched = site (node_path name); shown = card_refresh env name now fetched c in
       take 2 (fst (read (node_path name) default_maxBytes fetched)) = [StartTimer 10000, Fetch (node_path name)] \<and>
       card_snapshot shown = to_js (PDict snap) \<and>
       (\<forall>st. classify env (to_js (PDict snap)) now = Inr st \<longrightarrow>
          card_state shown = state st \<and> card_label shown = lit (label st) \<and> card_detail shown = detail st)))"
proof -
  obtain path snap where e: "exported penv a path snap" "dir_files (last ds) path = Some (whole snap)"
    using exported_written [OF assms] by blast
  then obtain name where n: "tg_name (at_target a) = Some name" "name \<in> set official_names" "path = lit name @ lit ''.json''"
    using exported_official by blast
  have nn: "name \<in> set node_names" using n(2) by (simp add: official_names_def node_names_def)
  have s: "snd (read (node_path name) default_maxBytes (site (node_path name))) = Inr (to_js (PDict snap))"
    if "serves_nodes site (last ds)" for site
    unfolding read_resolves using node_path_ok [OF nn] that e(2) by (simp add: serves_nodes_def n(3) node_file)
  have "card_start name c \<noteq> None" using nn by (simp add: card_start_def)
  then show ?thesis
    unfolding Let_def using n(1) e [unfolded n(3)] read_starts [OF node_path_ok [OF nn]] card_refresh_resolved [OF s]
    by (intro exI [of _ name] exI [of _ snap]) simp
qed

text \<open>The text of a file, for the example.\<close>

definition ex_text :: jsstr where
  "ex_text = lit (''{'' @ [CHR 0x22] @ ''node'' @ [CHR 0x22] @ '':'' @ [CHR 0x22] @ ''mome'' @ [CHR 0x22] @ '','' @ [CHR 0x22] @ ''updatedAt'' @ [CHR 0x22] @ '':'' @
     [CHR 0x22] @ ''2026-09-09T00:00:00Z'' @ [CHR 0x22] @ '','' @ [CHR 0x22] @ ''bestBlockHash'' @ [CHR 0x22] @ '':'' @ [CHR 0x22]) @ replicate 64 48 @
     lit ([CHR 0x22] @ '','' @ [CHR 0x22] @ ''height'' @ [CHR 0x22] @ '':5,'' @ [CHR 0x22] @ ''mining'' @ [CHR 0x22] @ '':{'' @ [CHR 0x22] @ ''threads'' @
     [CHR 0x22] @ '':2}}'') @ [10]"


lemma decode_ascii: "list_all (\<lambda>b. b < 128) bs \<Longrightarrow> bytes_needed d = 0 \<Longrightarrow> \<exists>d'. decode_stream d bs = Inr (d', bs) \<and> bytes_needed d' = 0"
proof (induction bs arbitrary: d)
  case (Cons b bs)
  have "bytes_needed (fst (emit d b)) = 0" by (simp add: emit_def)
  then obtain d' where "decode_stream (fst (emit d b)) bs = Inr (d', bs)" "bytes_needed d' = 0"
    using Cons.IH [of "fst (emit d b)"] Cons.prems by auto
  then show ?case using Cons.prems by (simp add: utf8_byte_def emit_def JS_Text.utf16_def)
qed simp

lemma utf8_decode_ascii: "list_all (\<lambda>b. b < 128) bs \<Longrightarrow> utf8_decode bs = Inr bs"
  using decode_ascii [of bs utf8_start] by (auto simp: utf8_decode_def utf8_start_def decode_flush_def)

lemma ex_text_decoded: "utf8_decode ex_text = Inr ex_text"
  by (rule utf8_decode_ascii) (simp add: ex_text_def lit_def list_all_iff)

lemma json_zeros: "json_chars (replicate n 48 @ r) = map_option (\<lambda>(s, r'). (replicate n 48 @ s, r')) (json_chars r)"
  by (cases "json_chars r") (induction n; auto)+

lemma json_digit:
  "is_digit c \<Longrightarrow> e \<in> {44, 125} \<Longrightarrow> json_number (c # e # r) = Some (JNum (round_double (of_nat (c - 48))), e # r)"
  by (auto simp: json_number_def is_digit_def exponent_def decimal_def dec_val_def)

definition ex_snap :: pydict where
  "ex_snap = [(lit ''node'', PStr (lit ''mome'')), (lit ''updatedAt'', PStr (lit ''2026-09-09T00:00:00Z'')),
       (lit ''bestBlockHash'', PStr (replicate 64 48)), (lit ''height'', PInt 5), (lit ''mining'', PDict [(lit ''threads'', PInt 2)])]"

lemma ex_text_parsed: "JSON_parse ex_text = Inr (to_js (PDict ex_snap))"
proof -
  have j: "to_js (PDict ex_snap) = JObj [(lit ''node'', JStr (lit ''mome'')), (lit ''updatedAt'', JStr (lit ''2026-09-09T00:00:00Z'')),
       (lit ''bestBlockHash'', JStr (replicate 64 48)), (lit ''height'', JNum (round_double 5)), (lit ''mining'', JObj [(lit ''threads'', JNum (round_double 2))])]"
    by (simp add: ex_snap_def utf16_ascii [of "replicate 64 48"])
  show ?thesis unfolding j
    by (simp add: ex_text_def JSON_parse_def lit_def json_numeral skip_ws_def json_word_def json_zeros json_digit is_digit_def)
qed

lemma ex_only: "exported env ex_attempt path snap \<Longrightarrow> snap = ex_snap"
  using ex_command ex_private_published [of env] by (auto simp: exported_def) (auto simp: ex_attempt_def ex_snap_def)

lemma ex_serves:
  assumes "export env ex_attempt \<lparr>dir_files = Map.empty, dir_temps = []\<rparr> = (ds, r)"
  shows "serves_nodes (\<lambda>_. Inr \<lparr>resp_ok = True, content_length = None, body = Some ([ex_text], None)\<rparr>) (last ds)"
  unfolding serves_nodes_def
proof (intro allI impI)
  fix name snap assume "dir_files (last ds) name = Some (whole snap)"
  moreover have "last ds \<in> set ds" using export_steps(1) [OF assms] by simp
  ultimately obtain path snap' where "exported env ex_attempt path snap'" "whole snap = whole snap'"
    using export_steps(2) [OF assms, of "last ds"] by (auto split: if_splits)
  then have snap: "snap = ex_snap" using ex_only by (auto simp: whole_def)
  have "length ex_text \<le> default_maxBytes" by (simp add: ex_text_def default_maxBytes_def lit_def)
  then show "\<exists>response parts text. (\<lambda>_. Inr \<lparr>resp_ok = True, content_length = None, body = Some ([ex_text], None)\<rparr>)
        (lit ''/data/nodes/'' @ name) = (Inr response :: response js) \<and> resp_ok response \<and> body response = Some (parts, None) \<and>
      \<not> num_lt (Fin (of_nat default_maxBytes)) (header_number (content_length response)) \<and>
      length (concat parts) \<le> default_maxBytes \<and> utf8_decode (concat parts) = Inr text \<and>
      JSON_parse text = Inr (to_js (PDict snap))"
    by (simp add: snap ex_text_decoded ex_text_parsed header_number_def del: to_js.simps)
qed

theorem exported_file_reaches_its_card_witness:
  "\<exists>ds site. export \<lparr>iso_other = \<lambda>_. None, decimal_other = \<lambda>_. None, py_str_other = \<lambda>_. []\<rparr> ex_attempt
       \<lparr>dir_files = Map.empty, dir_temps = []\<rparr> = (ds, Inr ()) \<and> serves_nodes site (last ds) \<and>
     card_snapshot (card_refresh ex_env ''mome'' (Fin (of_int 1788912005000)) (site (node_path ''mome'')) ex_card) = to_js (PDict ex_snap)"
proof -
  let ?env = "\<lparr>iso_other = \<lambda>_. None, decimal_other = \<lambda>_. None, py_str_other = \<lambda>_. []\<rparr>"
  obtain ds where ds: "export ?env ex_attempt \<lparr>dir_files = Map.empty, dir_temps = []\<rparr> = (ds, Inr ())" using ex_export by blast
  have name: "tg_name (at_target ex_attempt) = Some ''mome''" by (simp add: ex_attempt_def)
  from exported_file_reaches_its_card [OF ds, of ex_card ex_env "Fin (of_int 1788912005000)"] name
  obtain snap where "exported ?env ex_attempt (lit ''mome'' @ lit ''.json'') snap"
    "\<And>site. serves_nodes site (last ds) \<Longrightarrow>
      card_snapshot (card_refresh ex_env ''mome'' (Fin (of_int 1788912005000)) (site (node_path ''mome'')) ex_card) = to_js (PDict snap)"
    unfolding Let_def by auto
  then show ?thesis using ds ex_serves [OF ds] ex_only by blast
qed

text \<open>
  C36. A report can stop the pages from expiring an old reading. The report \<^verbatim>\<open>{"updatedAt":{"toString":null}}\<close> is
  valid JSON, but coercing its time to a string throws, inside the repaint of a node card and of the treasury
  page, both when the download finishes and at every later repaint: the card keeps its state, label, detail
  and time, and the treasury page all its texts, however much time passes.
\<close>

theorem uncoercible_report_freezes_pages:
  fixes env now0 c p ticks
  defines "bad \<equiv> obj [(''updatedAt'', obj [(''toString'', JNull)])]"
  defines "d \<equiv> foldl (\<lambda>c now. fst (card_paint env now c)) (card_refresh_done env now0 (Inr bad) c) ticks"
  shows "JSON_parse (lit (''{'' @ [CHR 0x22] @ ''updatedAt'' @ [CHR 0x22] @ '':{'' @ [CHR 0x22] @ ''toString'' @ [CHR 0x22] @ '':null}}'')) = Inr bad \<and>
    card_state d = card_state c \<and> card_label d = card_label c \<and> card_detail d = card_detail c \<and> card_time d = card_time c \<and>
    elements (foldl (\<lambda>p now. fst (treasury_paint env now p)) (treasury_refresh_done env now0 (Inr bad) p) ticks) = elements p"
proof -
  have "JSON_parse (lit (''{'' @ [CHR 0x22] @ ''updatedAt'' @ [CHR 0x22] @ '':{'' @ [CHR 0x22] @ ''toString'' @ [CHR 0x22] @ '':null}}'')) = Inr bad"
    by (simp add: bad_def JSON_parse_def lit_def json_numeral skip_ws_def json_word_def obj_def)
  then show ?thesis unfolding d_def unfolding bad_def by (simp only: card_frozen treasury_frozen simp_thms)
qed

text \<open>
  C1. The whole pipeline of the explorer, from the bytes of the network to the page: after a refresh whose
  download settled as fetched, the page holds a current snapshot d only if the response was successful, its
  body ended within 4 MiB, its bytes are UTF-8 for a JSON text with the value d, and d passes every check of
  validate at that moment; otherwise the height element shows the word Unavailable.
\<close>

theorem explorer_snapshot_is_downloaded_and_valid:
  fixes env now fetched p
  defines "q \<equiv> explorer_refresh env now fetched p"
  shows "(case snapshot q of
      Some d \<Rightarrow> validate env d now = Inr True \<and>
        (\<exists>response parts text. fetched = Inr response \<and> resp_ok response \<and> body response = Some (parts, None) \<and>
          length (concat parts) \<le> 4194304 \<and> utf8_decode (concat parts) = Inr text \<and> JSON_parse text = Inr d)
    | None \<Rightarrow> texts q ''[data-explorer-height]'' = map_option (\<lambda>_. lit ''Unavailable'') (texts p ''[data-explorer-height]''))"
proof (cases "snapshot q")
  case (Some d)
  then have "snd (read explorer_path explorer_maxBytes fetched) = Inr d" "validate env d now = Inr True"
    using refresh_done_snapshot by (auto simp: q_def explorer_refresh_def)
  then show ?thesis using Some unfolding read_resolves by (auto simp: explorer_maxBytes_def)
next
  case None
  then show ?thesis using refresh_done_unavailable by (simp add: q_def explorer_refresh_def)
qed

end
